theory Spec2Isabelle
  imports Main "HOL-Library.Sublist"
begin

section \<open>Strings\<close>

text \<open>
  A Python \<open>str\<close> is modelled as a \<open>string\<close> whose characters are the code points below
  256. \<open>is_space\<close> is \<open>str.isspace\<close> on one such character: the code points 9 to 13,
  28 to 32, 133 and 160.
\<close>

definition is_space :: "char \<Rightarrow> bool" where
  "is_space c =
     (let n = (of_char c :: nat)
      in (9 \<le> n \<and> n \<le> 13) \<or> (28 \<le> n \<and> n \<le> 32) \<or> n = 133 \<or> n = 160)"

text \<open>\<open>str.strip()\<close>: leading and trailing whitespace removed.\<close>

definition strip :: "string \<Rightarrow> string" where
  "strip s = rev (dropWhile is_space (rev (dropWhile is_space s)))"

text \<open>\<open>sub in s\<close> on strings: \<open>sub\<close> occurs in \<open>s\<close> as a contiguous block.\<close>

fun str_in :: "string \<Rightarrow> string \<Rightarrow> bool" where
  "str_in sub [] = (sub = [])"
| "str_in sub (c # cs) = (prefix sub (c # cs) \<or> str_in sub cs)"

text \<open>
  \<open>sep.join(xs)\<close>. The source builds the joined text incrementally
  (\<open>acc += " | " + t\<close>); \<open>join\<close> is the closed form the claims speak of.
\<close>

fun join :: "string \<Rightarrow> string list \<Rightarrow> string" where
  "join sep [] = []"
| "join sep [x] = x"
| "join sep (x # y # ys) = x @ sep @ join sep (y # ys)"

section \<open>Prediction rows and data frames\<close>

text \<open>
  One row of the merged prediction table. The columns \<open>text\<close> and \<open>id\<close> of the source are
  \<open>text_col\<close> and \<open>id_col\<close> here. The source does not fix the type of the values of the
  column \<open>page_id\<close>, which the merge engine makes: they may be strings or integers. The
  field \<open>page_id\<close> holds what \<open>str\<close> makes of the value, which is what the f-strings of
  lines 99, 103, 114 and 119 put into the file name: the value itself when it is a string,
  the decimal digits of an integer. The values of one column have one type, so that two of
  them are equal exactly when these strings are; whether they are strings is a parameter
  of the run (\<open>page_id_is_str\<close> below).
\<close>

record row =
  label :: string
  text_col :: string
  xmin :: int
  ymin :: int
  xmax :: int
  ymax :: int
  page_id :: string
  doc_id :: string
  id_col :: string

text \<open>
  A pandas frame is its list of rows, in index order. \<open>pd.DataFrame()\<close>, which the source
  uses for a disabled half of the criteria, has no rows and no columns either: it is
  \<open>EmptyDataFrame\<close>, and selecting a column of it raises \<open>KeyError\<close>.
\<close>

datatype frame = DataFrame "row list" | EmptyDataFrame

datatype error =
    KeyError string
  | ReError string
  | ValueError string
  | IndexError

text \<open>\<open>df.iterrows()\<close>: the rows in order; none for the frame without columns.\<close>

fun iterrows :: "frame \<Rightarrow> row list" where
  "iterrows (DataFrame rows) = rows"
| "iterrows EmptyDataFrame = []"

text \<open>
  \<open>pd.concat\<close> keeps the rows of its arguments in argument order; a frame without columns
  contributes nothing, and the columns of the others are kept. An empty argument list
  raises \<open>ValueError\<close>.
\<close>

fun concat2 :: "frame \<Rightarrow> frame \<Rightarrow> frame" where
  "concat2 EmptyDataFrame f = f"
| "concat2 (DataFrame a) EmptyDataFrame = DataFrame a"
| "concat2 (DataFrame a) (DataFrame b) = DataFrame (a @ b)"

fun pd_concat :: "frame list \<Rightarrow> error + frame" where
  "pd_concat [] = Inl (ValueError ''No objects to concatenate'')"
| "pd_concat (f # fs) = Inr (foldl concat2 f fs)"

text \<open>
  \<open>df.drop_duplicates()\<close>: rows are compared on all their columns and the first of equal
  rows is kept, at its position.
\<close>

fun keep_first :: "'a list \<Rightarrow> 'a list" where
  "keep_first [] = []"
| "keep_first (x # xs) = x # keep_first (filter (\<lambda>y. y \<noteq> x) xs)"

fun drop_duplicates :: "frame \<Rightarrow> frame" where
  "drop_duplicates (DataFrame rows) = DataFrame (keep_first rows)"
| "drop_duplicates EmptyDataFrame = EmptyDataFrame"

section \<open>Redaction criteria and the regular-expression engine\<close>

text \<open>
  The module-level values \<open>labels_to_redact\<close> and \<open>text_patterns_to_redact\<close>: each is
  \<open>None\<close> or a list of strings. The patterns are kept as strings; the source compiles
  none of them when the module is loaded.
\<close>

record criteria =
  labels_to_redact :: "string list option"
  text_patterns_to_redact :: "string list option"

text \<open>Python truthiness of such a value: \<open>None\<close> and the empty list are false.\<close>

fun truthy :: "'a list option \<Rightarrow> bool" where
  "truthy None = False"
| "truthy (Some xs) = (xs \<noteq> [])"

text \<open>
  Python's \<open>re\<close> module is a parameter: \<open>re_valid p\<close> says that \<open>re.compile(p)\<close> succeeds,
  and \<open>re_search p s\<close> that \<open>re.search(p, s)\<close> finds a match.
\<close>

record regex_engine =
  re_valid :: "string \<Rightarrow> bool"
  re_search :: "string \<Rightarrow> string \<Rightarrow> bool"

section \<open>\<open>PostProcessor.get_filtered_predictions\<close>\<close>

text \<open>
  \<open>doc_predictions[doc_predictions['text'].str.contains(pattern, regex=True)]\<close>:
  pandas compiles the pattern first, whatever the rows are, and \<open>re.error\<close> is raised
  there for a malformed one; otherwise the rows whose text has a match are selected.
\<close>

definition str_contains :: "regex_engine \<Rightarrow> string \<Rightarrow> row list \<Rightarrow> error + frame" where
  "str_contains re pattern rows =
     (if re_valid re pattern
      then Inr (DataFrame (filter (\<lambda>r. re_search re pattern (text_col r)) rows))
      else Inl (ReError pattern))"

text \<open>The list comprehension over the patterns, in pattern order, stopping at the first fault.\<close>

fun pattern_frames :: "regex_engine \<Rightarrow> string list \<Rightarrow> row list \<Rightarrow> error + frame list" where
  "pattern_frames re [] rows = Inr []"
| "pattern_frames re (pattern # ps) rows =
     (case str_contains re pattern rows of
        Inl e \<Rightarrow> Inl e
      | Inr f \<Rightarrow>
          (case pattern_frames re ps rows of
             Inl e \<Rightarrow> Inl e
           | Inr fs \<Rightarrow> Inr (f # fs)))"

definition strip_text :: "row \<Rightarrow> row" where
  "strip_text r = r\<lparr>text_col := strip (text_col r)\<rparr>"

text \<open>
  The function assigns the stripped text column to the caller's frame before it filters,
  so it returns a pair: the caller's frame as the call leaves it, and the result or the
  fault raised.
\<close>

definition get_filtered_predictions ::
  "criteria \<Rightarrow> regex_engine \<Rightarrow> frame \<Rightarrow> frame \<times> (error + frame)" where
  "get_filtered_predictions crit re doc_predictions =
     (case doc_predictions of
        EmptyDataFrame \<Rightarrow> (EmptyDataFrame, Inl (KeyError ''text''))
      | DataFrame rows0 \<Rightarrow>
          (let rows = map strip_text rows0;
               label_filtered =
                 (if truthy (labels_to_redact crit)
                  then DataFrame (filter (\<lambda>r. label r \<in> set (the (labels_to_redact crit))) rows)
                  else EmptyDataFrame);
               pattern_filtered =
                 (if truthy (text_patterns_to_redact crit)
                  then (case pattern_frames re (the (text_patterns_to_redact crit)) rows of
                          Inl e \<Rightarrow> Inl e
                        | Inr fs \<Rightarrow> map_sum id drop_duplicates (pd_concat fs))
                  else Inr EmptyDataFrame)
           in (DataFrame rows,
               case pattern_filtered of
                 Inl e \<Rightarrow> Inl e
               | Inr pf \<Rightarrow> map_sum id drop_duplicates (pd_concat [label_filtered, pf]))))"

section \<open>Paths and file names\<close>

text \<open>\<open>s.rfind(c)\<close> for one character: the index of its last occurrence, or \<open>-1\<close>.\<close>

fun rfind_aux :: "char \<Rightarrow> string \<Rightarrow> int \<Rightarrow> int \<Rightarrow> int" where
  "rfind_aux c [] i found = found"
| "rfind_aux c (x # xs) i found = rfind_aux c xs (i + 1) (if x = c then i else found)"

definition rfind :: "char \<Rightarrow> string \<Rightarrow> int" where
  "rfind c s = rfind_aux c s 0 (-1)"

text \<open>
  \<open>os.path.splitext\<close> (POSIX): the extension starts at the last dot of the last path
  component, unless only dots precede it there. The loop of the library function looks
  for a character other than a dot between the component's start and that last dot.
\<close>

function skip_leading_dots :: "string \<Rightarrow> nat \<Rightarrow> nat \<Rightarrow> bool" where
  "skip_leading_dots p filenameIndex dotIndex =
     (if filenameIndex < dotIndex
      then (if take 1 (drop filenameIndex p) \<noteq> ''.'' then True
            else skip_leading_dots p (filenameIndex + 1) dotIndex)
      else False)"
  by pat_completeness auto
termination
  by (relation "measure (\<lambda>(p, filenameIndex, dotIndex). dotIndex - filenameIndex)") auto

declare skip_leading_dots.simps [simp del]

definition splitext :: "string \<Rightarrow> string \<times> string" where
  "splitext p =
     (let sepIndex = rfind CHR ''/'' p;
          dotIndex = rfind CHR ''.'' p
      in if dotIndex > sepIndex \<and> skip_leading_dots p (nat (sepIndex + 1)) (nat dotIndex)
         then (take (nat dotIndex) p, drop (nat dotIndex) p)
         else (p, []))"

text \<open>\<open>os.path.join(a, b)\<close> (POSIX).\<close>

definition path_join :: "string \<Rightarrow> string \<Rightarrow> string" where
  "path_join a b =
     (if prefix ''/'' b then b
      else if a = [] \<or> last a = CHR ''/'' then a @ b
      else a @ ''/'' @ b)"

text \<open>
  \<open>s.split(sep)\<close>: the pieces of \<open>s\<close> between the occurrences of \<open>sep\<close>, found from the
  left without overlap; \<open>ValueError\<close> for an empty separator.
\<close>

function split_pieces :: "string \<Rightarrow> string \<Rightarrow> string \<Rightarrow> string list" where
  "split_pieces sep piece [] = [piece]"
| "split_pieces sep piece (c # cs) =
     (if sep \<noteq> [] \<and> prefix sep (c # cs)
      then piece # split_pieces sep [] (drop (length sep) (c # cs))
      else split_pieces sep (piece @ [c]) cs)"
  by pat_completeness auto
termination
  by (relation "measure (\<lambda>(sep, piece, s). length s)") auto

definition split :: "string \<Rightarrow> string \<Rightarrow> error + string list" where
  "split sep s =
     (if sep = [] then Inl (ValueError ''empty separator'') else Inr (split_pieces sep [] s))"

text \<open>\<open>xs[i]\<close> for an index that is not negative.\<close>

definition item :: "'a list \<Rightarrow> nat \<Rightarrow> error + 'a" where
  "item xs i = (if i < length xs then Inr (xs ! i) else Inl IndexError)"

text \<open>
  The file name of a page, as the pre-loading loop derives it (source lines 99 to 103)
  and as the redaction loop derives it (lines 114 to 119). The first argument is the
  document key, the third the configured image extension.
\<close>

definition preload_filename :: "string \<Rightarrow> string \<Rightarrow> string \<Rightarrow> string" where
  "preload_filename doc pid ext =
     (let filename = doc @ ''+'' @ pid @ ext
      in if \<not> str_in ''.pdf'' filename
         then (let filename_without_extension = fst (splitext doc)
               in filename_without_extension @ ''+'' @ pid @ ext)
         else filename)"

definition redact_filename :: "string \<Rightarrow> string \<Rightarrow> string \<Rightarrow> string" where
  "redact_filename doc pid ext =
     (let filename = doc @ ''+'' @ pid @ ext;
          processed_filename = filename
      in if \<not> str_in ''.pdf'' filename
         then (let filename_without_extension = fst (splitext doc)
               in filename_without_extension @ ''+'' @ pid @ ext)
         else processed_filename)"

text \<open>\<open>filename.split('+')[1].split(self.img_extension)[0]\<close> (line 140).\<close>

definition page_index_of :: "string \<Rightarrow> string \<Rightarrow> error + string" where
  "page_index_of filename ext =
     (case split ''+'' filename of
        Inl e \<Rightarrow> Inl e
      | Inr parts \<Rightarrow>
          (case item parts 1 of
             Inl e \<Rightarrow> Inl e
           | Inr part \<Rightarrow>
               (case split ext part of
                  Inl e \<Rightarrow> Inl e
                | Inr pieces \<Rightarrow> item pieces 0)))"

section \<open>\<open>PostProcessor.get_entities\<close>\<close>

text \<open>The attributes of \<open>self\<close> that the method reads.\<close>

record post_processor =
  has_labelling_model :: bool
  img_extension :: string
  resource_dir :: string

text \<open>
  What the method takes from outside the repository: OpenCV on a fixed file system
  (\<open>imread\<close> gives \<open>None\<close> for a file that is missing or cannot be decoded), the filled
  rectangle that \<open>redact_region\<close> draws, PNG encoding followed by Base64 (\<open>None\<close> when the
  encoder raises), the identifier that the \<open>n\<close>-th call of \<open>uuid.uuid4()\<close> returns, and the
  type of the page identifiers in the frames of the merge engine: \<open>page_id_is_str\<close> holds
  when \<open>row['page_id']\<close> is a Python \<open>str\<close>, and fails when it is an integer.
\<close>

record 'img environment =
  imread :: "string \<Rightarrow> 'img option"
  rectangle :: "'img \<Rightarrow> int \<Rightarrow> int \<Rightarrow> int \<Rightarrow> int \<Rightarrow> 'img"
  imencode_b64 :: "'img \<Rightarrow> string option"
  uuid4 :: "nat \<Rightarrow> string"
  page_id_is_str :: bool

datatype fault = PyError error | Cv2Error

text \<open>
  The local variables of the method that live across the loops. A Python \<open>dict\<close> keeps its
  keys in insertion order, so the image cache is an association list. \<open>imread_calls\<close>
  records the paths given to \<open>cv2.imread\<close>, in call order, and \<open>uuid_calls\<close> counts the
  calls of \<open>uuid.uuid4()\<close>; the source has neither variable. The set
  \<open>processed_page_ids\<close> and the dictionary \<open>redacted_text_per_page\<close> hold page identifiers as
  the rows have them, strings or integers; each is represented by its \<open>str\<close>, as in the field
  \<open>page_id\<close> of a row.
\<close>

record 'img locals =
  redacted_images_per_page :: "(string \<times> 'img) list"
  redacted_text_per_page :: "string \<rightharpoonup> string"
  processed_page_ids :: "string set"
  imread_calls :: "string list"
  uuid_calls :: nat

text \<open>\<open>d[k] = v\<close>: an existing key keeps its position, a new key is appended.\<close>

fun dict_set :: "'k \<Rightarrow> 'v \<Rightarrow> ('k \<times> 'v) list \<Rightarrow> ('k \<times> 'v) list" where
  "dict_set k v [] = [(k, v)]"
| "dict_set k v ((k', v') # kvs) =
     (if k' = k then (k, v) # kvs else (k', v') # dict_set k v kvs)"

text \<open>\<open>redact_region\<close> (lines 50 to 52): the image is filled in place and returned.\<close>

definition redact_region :: "'img environment \<Rightarrow> 'img \<Rightarrow> int \<Rightarrow> int \<Rightarrow> int \<Rightarrow> int \<Rightarrow> 'img" where
  "redact_region cv img x0 y0 x1 y1 = rectangle cv img x0 y0 x1 y1"

text \<open>Line 92: every row of the document's table gets a fresh identifier.\<close>

fun assign_ids :: "'img environment \<Rightarrow> nat \<Rightarrow> row list \<Rightarrow> row list" where
  "assign_ids cv n [] = []"
| "assign_ids cv n (r # rs) = r\<lparr>id_col := uuid4 cv n\<rparr> # assign_ids cv (Suc n) rs"

text \<open>The body of the pre-loading loop (lines 97 to 109).\<close>

definition preload_row ::
  "post_processor \<Rightarrow> 'img environment \<Rightarrow> string \<Rightarrow> 'img locals \<Rightarrow> row \<Rightarrow> 'img locals" where
  "preload_row self cv doc st r =
     (let pid = page_id r
      in if pid \<notin> processed_page_ids st
         then (let filename = preload_filename doc pid (img_extension self);
                   img_path = path_join (resource_dir self) filename;
                   st1 = st\<lparr>imread_calls := imread_calls st @ [img_path]\<rparr>
               in case imread cv img_path of
                    Some img \<Rightarrow>
                      st1\<lparr>redacted_images_per_page :=
                            dict_set filename img (redacted_images_per_page st1),
                          processed_page_ids := insert pid (processed_page_ids st1)\<rparr>
                  | None \<Rightarrow> st1)
         else st)"

definition preload ::
  "post_processor \<Rightarrow> 'img environment \<Rightarrow> string \<Rightarrow> 'img locals \<Rightarrow> row list \<Rightarrow> 'img locals" where
  "preload self cv doc st rows = foldl (preload_row self cv doc) st rows"

text \<open>
  The body of the redaction loop (lines 114 to 134). Subscripting the cache with a key it
  does not hold raises \<open>KeyError\<close>.
\<close>

definition redact_row ::
  "post_processor \<Rightarrow> 'img environment \<Rightarrow> string \<Rightarrow> 'img locals \<Rightarrow> row \<Rightarrow> fault + 'img locals" where
  "redact_row self cv doc st r =
     (let processed_filename = redact_filename doc (page_id r) (img_extension self)
      in case map_of (redacted_images_per_page st) processed_filename of
           None \<Rightarrow> Inl (PyError (KeyError processed_filename))
         | Some img \<Rightarrow>
             (let img' = redact_region cv img (xmin r) (ymin r) (xmax r) (ymax r);
                  pid = page_id r;
                  text_to_redact = text_col r
              in Inr (st\<lparr>redacted_images_per_page :=
                           dict_set processed_filename img' (redacted_images_per_page st),
                         redacted_text_per_page :=
                           (case redacted_text_per_page st pid of
                              Some acc \<Rightarrow>
                                (redacted_text_per_page st)(pid \<mapsto> acc @ '' | '' @ text_to_redact)
                            | None \<Rightarrow> (redacted_text_per_page st)(pid \<mapsto> text_to_redact))\<rparr>)))"

fun redact_rows ::
  "post_processor \<Rightarrow> 'img environment \<Rightarrow> string \<Rightarrow> 'img locals \<Rightarrow> row list \<Rightarrow> fault + 'img locals" where
  "redact_rows self cv doc st [] = Inr st"
| "redact_rows self cv doc st (r # rs) =
     (case redact_row self cv doc st r of
        Inl e \<Rightarrow> Inl e
      | Inr st' \<Rightarrow> redact_rows self cv doc st' rs)"

text \<open>One iteration of \<open>for doc in docs\<close> (lines 92 to 134).\<close>

definition process_doc ::
  "post_processor \<Rightarrow> criteria \<Rightarrow> regex_engine \<Rightarrow> 'img environment \<Rightarrow> 'img locals \<Rightarrow>
   string \<times> row list \<Rightarrow> fault + 'img locals" where
  "process_doc self crit re cv st d =
     (let doc = fst d;
          rows = assign_ids cv (uuid_calls st) (snd d);
          st1 = st\<lparr>uuid_calls := uuid_calls st + length rows,
                   redacted_images_per_page := [],
                   processed_page_ids := {}\<rparr>;
          st2 = preload self cv doc st1 rows
      in case snd (get_filtered_predictions crit re (DataFrame rows)) of
           Inl e \<Rightarrow> Inl (PyError e)
         | Inr filtered_predictions \<Rightarrow> redact_rows self cv doc st2 (iterrows filtered_predictions))"

fun process_docs ::
  "post_processor \<Rightarrow> criteria \<Rightarrow> regex_engine \<Rightarrow> 'img environment \<Rightarrow> 'img locals \<Rightarrow>
   (string \<times> row list) list \<Rightarrow> fault + 'img locals" where
  "process_docs self crit re cv st [] = Inr st"
| "process_docs self crit re cv st (d # ds) =
     (case process_doc self crit re cv st d of
        Inl e \<Rightarrow> Inl e
      | Inr st' \<Rightarrow> process_docs self crit re cv st' ds)"

text \<open>
  The output bundles (lines 137 to 152). The page index of line 140 is a string cut from
  the file name, and line 143 looks it up in the dictionary of the redacted texts, whose
  keys are the page identifiers of the rows (lines 131 to 134). A string is equal to no
  integer: \<open>lookup_text\<close> finds the entry of a page only when the page identifiers are
  strings, and gives the default \<open>""\<close> otherwise.
\<close>

record data_bundle =
  pageIndex :: string
  redactedData :: string
  image :: string

definition lookup_text :: "'img environment \<Rightarrow> (string \<rightharpoonup> string) \<Rightarrow> string \<Rightarrow> string" where
  "lookup_text cv texts page_index =
     (if page_id_is_str cv
      then (case texts page_index of Some t \<Rightarrow> t | None \<Rightarrow> [])
      else [])"

definition build_bundle ::
  "post_processor \<Rightarrow> 'img environment \<Rightarrow> (string \<rightharpoonup> string) \<Rightarrow> string \<times> 'img \<Rightarrow>
   fault + data_bundle" where
  "build_bundle self cv texts kv =
     (case imencode_b64 cv (snd kv) of
        None \<Rightarrow> Inl Cv2Error
      | Some encoded \<Rightarrow>
          (case page_index_of (fst kv) (img_extension self) of
             Inl e \<Rightarrow> Inl (PyError e)
           | Inr page_index \<Rightarrow>
               Inr \<lparr>pageIndex = page_index,
                    redactedData = lookup_text cv texts page_index,
                    image = encoded\<rparr>))"

fun build_bundles ::
  "post_processor \<Rightarrow> 'img environment \<Rightarrow> (string \<rightharpoonup> string) \<Rightarrow> (string \<times> 'img) list \<Rightarrow>
   fault + data_bundle list" where
  "build_bundles self cv texts [] = Inr []"
| "build_bundles self cv texts (kv # kvs) =
     (case build_bundle self cv texts kv of
        Inl e \<Rightarrow> Inl e
      | Inr b \<Rightarrow>
          (case build_bundles self cv texts kvs of
             Inl e \<Rightarrow> Inl e
           | Inr bs \<Rightarrow> Inr (b # bs)))"

text \<open>The state at line 88, before the first document.\<close>

definition initial_locals :: "'img locals" where
  "initial_locals =
     \<lparr>redacted_images_per_page = [], redacted_text_per_page = Map.empty,
      processed_page_ids = {}, imread_calls = [], uuid_calls = 0\<rparr>"

text \<open>
  \<open>get_entities\<close>, from the merged predictions on: \<open>docs\<close> is the dictionary that the
  merge engine returns, as the list of its items in iteration order.
\<close>

definition get_entities ::
  "post_processor \<Rightarrow> criteria \<Rightarrow> regex_engine \<Rightarrow> 'img environment \<Rightarrow> (string \<times> row list) list \<Rightarrow>
   fault + data_bundle list" where
  "get_entities self crit re cv docs =
     (if \<not> has_labelling_model self then Inr []
      else case process_docs self crit re cv initial_locals docs of
             Inl e \<Rightarrow> Inl e
           | Inr st \<Rightarrow>
               build_bundles self cv (redacted_text_per_page st) (redacted_images_per_page st))"

section \<open>Notions used in the statements\<close>

text \<open>
  The rows that the label half and the pattern half of the criteria select from a table,
  each in table order; the pattern half lists the matches of the first pattern, then those
  of the second, and so on. A disabled half selects nothing.
\<close>

definition label_matches :: "criteria \<Rightarrow> row list \<Rightarrow> row list" where
  "label_matches crit rows =
     (case labels_to_redact crit of
        Some labels \<Rightarrow> filter (\<lambda>r. label r \<in> set labels) rows
      | None \<Rightarrow> [])"

definition pattern_matches :: "criteria \<Rightarrow> regex_engine \<Rightarrow> row list \<Rightarrow> row list" where
  "pattern_matches crit re rows =
     (case text_patterns_to_redact crit of
        Some patterns \<Rightarrow> concat (map (\<lambda>p. filter (\<lambda>r. re_search re p (text_col r)) rows) patterns)
      | None \<Rightarrow> [])"

text \<open>Every configured pattern compiles.\<close>

definition patterns_valid :: "criteria \<Rightarrow> regex_engine \<Rightarrow> bool" where
  "patterns_valid crit re =
     (case text_patterns_to_redact crit of
        Some patterns \<Rightarrow> list_all (re_valid re) patterns
      | None \<Rightarrow> True)"

text \<open>
  The criteria select by one test only: by labels alone, or by a single pattern with the
  labels disabled (or by nothing at all).
\<close>

definition single_criterion :: "criteria \<Rightarrow> bool" where
  "single_criterion crit =
     (case text_patterns_to_redact crit of
        None \<Rightarrow> True
      | Some ps \<Rightarrow> ps = [] \<or> (length ps = 1 \<and> \<not> truthy (labels_to_redact crit)))"

text \<open>
  The tests of the criteria as a list of predicates, labels first, and the selection they
  make from a list: the matches of each test in turn, first occurrences only.
\<close>

definition criteria_preds :: "criteria \<Rightarrow> regex_engine \<Rightarrow> (row \<Rightarrow> bool) list" where
  "criteria_preds crit re =
     (case labels_to_redact crit of Some ls \<Rightarrow> [\<lambda>r. label r \<in> set ls] | None \<Rightarrow> [])
     @ (case text_patterns_to_redact crit of
          Some ps \<Rightarrow> map (\<lambda>p r. re_search re p (text_col r)) ps | None \<Rightarrow> [])"

definition grouped :: "('a \<Rightarrow> bool) list \<Rightarrow> 'a list \<Rightarrow> 'a list" where
  "grouped Qs xs = keep_first (concat (map (\<lambda>Q. filter Q xs) Qs))"

text \<open>
  The part of a page's file name in front of the \<open>+\<close>: the document key, or the key without
  its extension, whichever rule the source's test on \<open>.pdf\<close> selects.
\<close>

definition stem_of :: "string \<Rightarrow> string \<Rightarrow> string \<Rightarrow> string" where
  "stem_of doc pid ext =
     (if str_in ''.pdf'' (doc @ ''+'' @ pid @ ext) then doc else fst (splitext doc))"

text \<open>The keys of a dictionary, in insertion order.\<close>

definition keys :: "('k \<times> 'v) list \<Rightarrow> 'k list" where
  "keys kvs = map fst kvs"

text \<open>The path that the pre-loading loop reads for a page, and whether the read succeeds.\<close>

definition page_path :: "post_processor \<Rightarrow> string \<Rightarrow> string \<Rightarrow> string" where
  "page_path self doc pid =
     path_join (resource_dir self) (preload_filename doc pid (img_extension self))"

definition page_loads :: "post_processor \<Rightarrow> 'img environment \<Rightarrow> string \<Rightarrow> string \<Rightarrow> bool" where
  "page_loads self cv doc pid = (imread cv (page_path self doc pid) \<noteq> None)"

text \<open>
  The file names of the pages that at least one row of a table references and whose file
  loads, each once, in the order of their first row.
\<close>

definition loaded_files ::
  "post_processor \<Rightarrow> 'img environment \<Rightarrow> string \<Rightarrow> row list \<Rightarrow> string list" where
  "loaded_files self cv doc rows =
     keep_first (map (\<lambda>r. preload_filename doc (page_id r) (img_extension self))
                  (filter (\<lambda>r. page_loads self cv doc (page_id r)) rows))"

text \<open>
  One step of the accumulation of the redacted text of a page (lines 131 to 134): the first
  text starts the entry, a later one is appended after the separator.
\<close>

definition text_step :: "string option \<Rightarrow> string \<Rightarrow> string option" where
  "text_step acc t = (case acc of Some a \<Rightarrow> Some (a @ '' | '' @ t) | None \<Rightarrow> Some t)"

text \<open>
  The filtered rows of all the documents of a run, in the order in which the redaction
  loops visit them. The \<open>n\<close>-th identifier is the next one that \<open>uuid.uuid4()\<close> gives.
\<close>

fun all_filtered ::
  "criteria \<Rightarrow> regex_engine \<Rightarrow> 'img environment \<Rightarrow> nat \<Rightarrow> (string \<times> row list) list \<Rightarrow> row list" where
  "all_filtered crit re cv n [] = []"
| "all_filtered crit re cv n (d # ds) =
     (case snd (get_filtered_predictions crit re (DataFrame (assign_ids cv n (snd d)))) of
        Inr f \<Rightarrow> iterrows f
      | Inl e \<Rightarrow> [])
     @ all_filtered crit re cv (n + length (snd d)) ds"

text \<open>
  The invariant of the pre-loading loop: the file name of every page marked as processed is
  a key of the cache.
\<close>

definition preload_inv :: "post_processor \<Rightarrow> string \<Rightarrow> 'img locals \<Rightarrow> bool" where
  "preload_inv self doc st =
     (\<forall>p \<in> processed_page_ids st.
        preload_filename doc p (img_extension self) \<in> set (keys (redacted_images_per_page st)))"

text \<open>A row is selected by the criteria: one of their tests holds of its stripped text.\<close>

definition row_selected :: "criteria \<Rightarrow> regex_engine \<Rightarrow> row \<Rightarrow> bool" where
  "row_selected crit re r = list_ex (\<lambda>Q. Q (strip_text r)) (criteria_preds crit re)"


text \<open>The keys of the image cache when the loop over the documents is left.\<close>

definition final_cache_keys ::
  "post_processor \<Rightarrow> 'img environment \<Rightarrow> (string \<times> row list) list \<Rightarrow> string list" where
  "final_cache_keys self cv docs =
     (if docs = [] then [] else loaded_files self cv (fst (last docs)) (snd (last docs)))"

section \<open>Concrete inputs\<close>

text \<open>
  A regular-expression engine for the examples. On a pattern made of letters and digits
  \<open>re.search\<close> looks for the pattern as a substring, and \<open>re.compile("(")\<close> and
  \<open>re.compile(")")\<close> raise \<open>re.error\<close>; the examples use no other pattern.
\<close>

definition literal_engine :: regex_engine where
  "literal_engine =
     \<lparr>re_valid = (\<lambda>p. p \<noteq> ''('' \<and> p \<noteq> '')''), re_search = (\<lambda>p s. str_in p s)\<rparr>"

definition example_row :: "string \<Rightarrow> string \<Rightarrow> string \<Rightarrow> row" where
  "example_row l t p =
     \<lparr>label = l, text_col = t, xmin = 0, ymin = 0, xmax = 10, ymax = 10,
      page_id = p, doc_id = ''a.pdf'', id_col = []\<rparr>"

definition labels_only :: criteria where
  "labels_only = \<lparr>labels_to_redact = Some [''name''], text_patterns_to_redact = None\<rparr>"

definition two_patterns :: criteria where
  "two_patterns = \<lparr>labels_to_redact = None, text_patterns_to_redact = Some [''b'', ''a'']\<rparr>"

definition nothing_enabled :: criteria where
  "nothing_enabled = \<lparr>labels_to_redact = None, text_patterns_to_redact = None\<rparr>"

definition example_table :: "row list" where
  "example_table =
     [example_row ''name'' ''  a 1 '' ''0'', example_row ''other'' ''b'' ''0'',
      example_row ''name'' ''ab'' ''1'']"

text \<open>
  An instance of the post-processor and of its surroundings for the examples. An image is
  a string: the path it was read from, with one \<open>#\<close> appended for every rectangle filled
  on it; its encoding is the string itself. The resource directory holds the pages 0 and 1
  of \<open>a.pdf\<close> and the page 0 of \<open>b.pdf\<close>. The page identifiers are strings in
  \<open>example_cv\<close> and integers in \<open>example_cv_int\<close>, which is the same otherwise.
\<close>

definition example_self :: post_processor where
  "example_self = \<lparr>has_labelling_model = True, img_extension = ''.png'', resource_dir = ''/res''\<rparr>"

definition example_cv :: "string environment" where
  "example_cv =
     \<lparr>imread = (\<lambda>p. if p \<in> {''/res/a.pdf+0.png'', ''/res/a.pdf+1.png'', ''/res/b.pdf+0.png''}
                     then Some p else None),
      rectangle = (\<lambda>img x0 y0 x1 y1. img @ ''#''),
      imencode_b64 = (\<lambda>img. Some img),
      uuid4 = (\<lambda>n. replicate (Suc n) CHR ''u''),
      page_id_is_str = True\<rparr>"


text \<open>Three patterns, of which the second and the third are malformed.\<close>

definition malformed_pattern :: criteria where
  "malformed_pattern =
     \<lparr>labels_to_redact = None, text_patterns_to_redact = Some [''a'', '')'', ''('']\<rparr>"

text \<open>A table with two rows on a page 7, which has no file.\<close>

definition missing_page_table :: "row list" where
  "missing_page_table = [example_row ''name'' ''a'' ''7'', example_row ''other'' ''b'' ''7'']"

definition other_table :: "row list" where
  "other_table = [example_row ''name'' ''x'' ''0'']"

section \<open>Lemmas about the data-frame operations and the filter\<close>

lemma set_keep_first: "set (keep_first xs) = set xs"
  by (induction xs rule: keep_first.induct) auto

lemma distinct_keep_first: "distinct (keep_first xs)"
  by (induction xs rule: keep_first.induct) (auto simp: set_keep_first)

lemma filter_keep_first: "filter P (keep_first xs) = keep_first (filter P xs)"
proof (induction xs rule: keep_first.induct)
  case 1 show ?case by simp
next
  case (2 x xs)
  have "filter (\<lambda>xa. P xa \<and> xa \<noteq> x) xs = filter P xs" if "\<not> P x"
    using that by (auto intro: filter_cong)
  with 2 show ?case by (auto simp: conj_commute)
qed

lemma keep_first_append:
  "keep_first (xs @ ys) = keep_first xs @ keep_first (filter (\<lambda>y. y \<notin> set xs) ys)"
proof (induction xs arbitrary: ys rule: keep_first.induct)
  case 1 show ?case by simp
next
  case (2 x xs)
  have "keep_first ((x # xs) @ ys) = x # keep_first (filter (\<lambda>y. y \<noteq> x) xs @ filter (\<lambda>y. y \<noteq> x) ys)"
    by simp
  also have "\<dots> = x # (keep_first (filter (\<lambda>y. y \<noteq> x) xs) @
      keep_first (filter (\<lambda>y. y \<notin> set (filter (\<lambda>y. y \<noteq> x) xs)) (filter (\<lambda>y. y \<noteq> x) ys)))"
    using "2.IH" by simp
  also have "filter (\<lambda>y. y \<notin> set (filter (\<lambda>y. y \<noteq> x) xs)) (filter (\<lambda>y. y \<noteq> x) ys)
     = filter (\<lambda>y. y \<notin> set (x # xs)) ys"
    by (auto intro: filter_cong)
  finally show ?case by simp
qed

lemma keep_first_distinct: "distinct xs \<Longrightarrow> keep_first xs = xs"
  by (induction xs rule: keep_first.induct) (auto simp: filter_id_conv)

lemma keep_first_idem: "keep_first (keep_first xs) = keep_first xs"
  by (simp add: keep_first_distinct distinct_keep_first)

lemma keep_first_append_keep_first:
  "keep_first (xs @ keep_first ys) = keep_first (xs @ ys)"
  by (simp add: keep_first_append filter_keep_first keep_first_idem)

lemma last_dropWhile: "dropWhile P xs \<noteq> [] \<Longrightarrow> last (dropWhile P xs) = last xs"
  by (induction xs) auto

lemma strip_idem: "strip (strip s) = strip s"
proof -
  define u where "u = dropWhile is_space s"
  define v where "v = dropWhile is_space (rev u)"
  have u: "u = [] \<or> \<not> is_space (hd u)" unfolding u_def using hd_dropWhile by blast
  have "dropWhile is_space (rev v) = rev v"
    by (metis dropWhile_eq_self_iff hd_rev last_dropWhile last_rev rev.simps(1) u v_def)
  moreover have "dropWhile is_space v = v" by (simp add: v_def)
  ultimately show ?thesis by (simp add: strip_def u_def v_def)
qed

lemma strip_text_idem: "strip_text (strip_text r) = strip_text r"
  by (simp add: strip_text_def strip_idem)

lemma foldl_concat2_frames:
  "foldl concat2 (DataFrame a) (map (\<lambda>x. DataFrame (g x)) xs) = DataFrame (a @ concat (map g xs))"
  by (induction xs arbitrary: a) auto

lemma pattern_frames_Inr:
  "pattern_frames re ps rows = Inr fs \<Longrightarrow>
     fs = map (\<lambda>p. DataFrame (filter (\<lambda>r. re_search re p (text_col r)) rows)) ps
     \<and> (\<forall>p \<in> set ps. re_valid re p)"
  by (induction ps arbitrary: fs) (auto simp: str_contains_def split: sum.splits if_splits)

lemma pattern_frames_valid:
  "\<forall>p \<in> set ps. re_valid re p \<Longrightarrow>
   pattern_frames re ps rows = Inr (map (\<lambda>p. DataFrame (filter (\<lambda>r. re_search re p (text_col r)) rows)) ps)"
  by (induction ps) (auto simp: str_contains_def)

lemma pattern_frames_Inl:
  "pattern_frames re ps rows = Inl e \<Longrightarrow> \<exists>p \<in> set ps. \<not> re_valid re p \<and> e = ReError p"
  by (induction ps) (auto simp: str_contains_def split: sum.splits if_splits)

lemma pd_concat_frames:
  "xs \<noteq> [] \<Longrightarrow> pd_concat (map (\<lambda>x. DataFrame (g x)) xs) = Inr (DataFrame (concat (map g xs)))"
  by (cases xs) (auto simp: foldl_concat2_frames)

lemma label_matches_falsy: "\<not> truthy (labels_to_redact crit) \<Longrightarrow> label_matches crit rows = []"
  by (cases "labels_to_redact crit") (auto simp: label_matches_def)

lemma label_matches_truthy:
  "truthy (labels_to_redact crit) \<Longrightarrow>
   label_matches crit rows = filter (\<lambda>r. label r \<in> set (the (labels_to_redact crit))) rows"
  by (cases "labels_to_redact crit") (auto simp: label_matches_def)

lemma pattern_matches_falsy:
  "\<not> truthy (text_patterns_to_redact crit) \<Longrightarrow> pattern_matches crit re rows = []"
  by (cases "text_patterns_to_redact crit") (auto simp: pattern_matches_def)

lemma pattern_matches_truthy:
  "truthy (text_patterns_to_redact crit) \<Longrightarrow>
   pattern_matches crit re rows =
     concat (map (\<lambda>p. filter (\<lambda>r. re_search re p (text_col r)) rows) (the (text_patterns_to_redact crit)))"
  by (cases "text_patterns_to_redact crit") (auto simp: pattern_matches_def)

lemma patterns_valid_falsy:
  "\<not> truthy (text_patterns_to_redact crit) \<Longrightarrow> patterns_valid crit re"
  by (cases "text_patterns_to_redact crit") (auto simp: patterns_valid_def)

lemma patterns_valid_truthy:
  "truthy (text_patterns_to_redact crit) \<Longrightarrow>
   patterns_valid crit re = (\<forall>p \<in> set (the (text_patterns_to_redact crit)). re_valid re p)"
  by (cases "text_patterns_to_redact crit") (auto simp: patterns_valid_def list_all_iff)

lemma get_filtered_predictions_valid:
  assumes "patterns_valid crit re"
  shows "snd (get_filtered_predictions crit re (DataFrame rows0)) =
     Inr (if truthy (labels_to_redact crit) \<or> truthy (text_patterns_to_redact crit)
          then DataFrame (keep_first (label_matches crit (map strip_text rows0)
                 @ pattern_matches crit re (map strip_text rows0)))
          else EmptyDataFrame)"
proof (cases "truthy (text_patterns_to_redact crit)")
  case True
  then have ne: "the (text_patterns_to_redact crit) \<noteq> []"
    by (cases "text_patterns_to_redact crit") auto
  from True assms have "\<forall>p \<in> set (the (text_patterns_to_redact crit)). re_valid re p"
    by (simp add: patterns_valid_truthy)
  then show ?thesis
    using True ne
    by (cases "truthy (labels_to_redact crit)")
       (simp_all add: get_filtered_predictions_def Let_def pattern_frames_valid pd_concat_frames
          label_matches_truthy label_matches_falsy pattern_matches_truthy
          keep_first_append_keep_first keep_first_idem)
next
  case False
  then show ?thesis
    by (cases "truthy (labels_to_redact crit)")
       (simp_all add: get_filtered_predictions_def Let_def
          label_matches_truthy label_matches_falsy pattern_matches_falsy)
qed

lemma get_filtered_predictions_invalid:
  assumes "\<not> patterns_valid crit re"
  shows "\<exists>p. snd (get_filtered_predictions crit re (DataFrame rows0)) = Inl (ReError p)
            \<and> \<not> re_valid re p"
proof -
  from assms have t: "truthy (text_patterns_to_redact crit)"
    using patterns_valid_falsy by blast
  with assms have "\<not> (\<forall>p \<in> set (the (text_patterns_to_redact crit)). re_valid re p)"
    by (simp add: patterns_valid_truthy)
  then obtain e where
    e: "pattern_frames re (the (text_patterns_to_redact crit)) (map strip_text rows0) = Inl e"
    using pattern_frames_Inr by (cases "pattern_frames re (the (text_patterns_to_redact crit)) (map strip_text rows0)") blast+
  then obtain p where "\<not> re_valid re p" "e = ReError p"
    using pattern_frames_Inl by blast
  with e t show ?thesis
    by (auto simp: get_filtered_predictions_def Let_def)
qed

lemma filtered_rows:
  assumes "snd (get_filtered_predictions crit re (DataFrame rows0)) = Inr out"
  shows "iterrows out = keep_first (label_matches crit (map strip_text rows0)
            @ pattern_matches crit re (map strip_text rows0))"
    and "patterns_valid crit re"
proof -
  show v: "patterns_valid crit re"
  proof (rule ccontr)
    assume "\<not> patterns_valid crit re"
    from get_filtered_predictions_invalid [OF this, of rows0] assms show False by auto
  qed
  show "iterrows out = keep_first (label_matches crit (map strip_text rows0)
            @ pattern_matches crit re (map strip_text rows0))"
    using assms get_filtered_predictions_valid [OF v, of rows0]
    by (auto simp: label_matches_falsy pattern_matches_falsy split: if_splits)
qed

lemma strip_no_surrounding:
  "dropWhile is_space (strip s) = strip s \<and> dropWhile is_space (rev (strip s)) = rev (strip s)"
proof -
  define u where "u = dropWhile is_space s"
  define v where "v = dropWhile is_space (rev u)"
  have u: "u = [] \<or> \<not> is_space (hd u)" unfolding u_def using hd_dropWhile by blast
  have "dropWhile is_space (rev v) = rev v"
    by (metis dropWhile_eq_self_iff hd_rev last_dropWhile last_rev rev.simps(1) u v_def)
  moreover have "dropWhile is_space v = v" by (simp add: v_def)
  ultimately show ?thesis by (simp add: strip_def u_def v_def)
qed

lemma subseq_keep_first: "subseq (keep_first xs) xs"
proof (induction xs rule: keep_first.induct)
  case 1 show ?case by simp
next
  case (2 x xs)
  have "subseq (keep_first (filter (\<lambda>y. y \<noteq> x) xs)) (filter (\<lambda>y. y \<noteq> x) xs)" by (rule 2)
  also have "subseq (filter (\<lambda>y. y \<noteq> x) xs) xs" by simp
  finally show ?case by simp
qed

lemma single_criterion_subseq:
  assumes "single_criterion crit"
  shows "subseq (keep_first (label_matches crit rows @ pattern_matches crit re rows)) rows"
proof -
  have "\<exists>Q. label_matches crit rows @ pattern_matches crit re rows = filter Q rows"
  proof (cases "text_patterns_to_redact crit")
    case None
    show ?thesis
    proof (cases "labels_to_redact crit")
      case None
      with \<open>text_patterns_to_redact crit = None\<close>
      have "label_matches crit rows @ pattern_matches crit re rows = filter (\<lambda>_. False) rows"
        by (simp add: label_matches_def pattern_matches_def)
      then show ?thesis by blast
    next
      case (Some ls)
      with \<open>text_patterns_to_redact crit = None\<close>
      have "label_matches crit rows @ pattern_matches crit re rows
              = filter (\<lambda>r. label r \<in> set ls) rows"
        by (simp add: label_matches_def pattern_matches_def)
      then show ?thesis by blast
    qed
  next
    case (Some ps)
    show ?thesis
    proof (cases "ps = []")
      case True
      show ?thesis
      proof (cases "labels_to_redact crit")
        case None
        with Some True
        have "label_matches crit rows @ pattern_matches crit re rows = filter (\<lambda>_. False) rows"
          by (simp add: label_matches_def pattern_matches_def)
        then show ?thesis by blast
      next
        case (Some ls)
        with \<open>text_patterns_to_redact crit = Some ps\<close> True
        have "label_matches crit rows @ pattern_matches crit re rows
                = filter (\<lambda>r. label r \<in> set ls) rows"
          by (simp add: label_matches_def pattern_matches_def)
        then show ?thesis by blast
      qed
    next
      case False
      with Some assms have l: "length ps = 1" and f: "\<not> truthy (labels_to_redact crit)"
        by (auto simp: single_criterion_def)
      from l obtain p where "ps = [p]" by (cases ps) auto
      with Some f show ?thesis
        by (auto simp: label_matches_falsy pattern_matches_def)
    qed
  qed
  then obtain Q where Q: "label_matches crit rows @ pattern_matches crit re rows = filter Q rows" ..
  have "subseq (keep_first (filter Q rows)) (filter Q rows)" by (rule subseq_keep_first)
  also have "subseq (filter Q rows) rows" by simp
  finally show ?thesis by (simp add: Q)
qed

lemma set_grouped: "set (grouped Qs xs) \<subseteq> set xs"
  by (auto simp: grouped_def set_keep_first)

lemma distinct_grouped: "distinct (grouped Qs xs)"
  by (simp add: grouped_def distinct_keep_first)

lemma grouped_Cons:
  "grouped (Q # Qs) xs = keep_first (filter Q xs) @ grouped Qs (filter (\<lambda>y. \<not> Q y) xs)"
proof -
  have "filter (\<lambda>y. y \<notin> set (filter Q xs)) (concat (map (\<lambda>Q'. filter Q' xs) Qs))
      = concat (map (\<lambda>Q'. filter Q' (filter (\<lambda>y. \<not> Q y) xs)) Qs)"
    by (induction Qs) (auto simp: conj_commute intro: filter_cong)
  then show ?thesis
    by (simp add: grouped_def keep_first_append)
qed

lemma grouped_idem: "grouped Qs (grouped Qs xs) = grouped Qs xs"
proof (induction Qs arbitrary: xs)
  case Nil
  show ?case by (simp add: grouped_def)
next
  case (Cons Q Qs)
  define A where "A = keep_first (filter Q xs)"
  define B where "B = grouped Qs (filter (\<lambda>y. \<not> Q y) xs)"
  have o: "grouped (Q # Qs) xs = A @ B" by (simp add: grouped_Cons A_def B_def)
  have A: "\<forall>y \<in> set A. Q y" by (simp add: A_def set_keep_first)
  have B: "\<forall>y \<in> set B. \<not> Q y" using set_grouped [of Qs "filter (\<lambda>y. \<not> Q y) xs"] by (auto simp: B_def)
  have fA: "filter Q (A @ B) = A" using A B by (simp add: filter_id_conv filter_empty_conv)
  have fB: "filter (\<lambda>y. \<not> Q y) (A @ B) = B" using A B by (simp add: filter_id_conv filter_empty_conv)
  have "keep_first A = A" by (simp add: A_def keep_first_idem)
  moreover have "grouped Qs B = B" unfolding B_def by (rule Cons.IH)
  moreover have "grouped (Q # Qs) (A @ B)
      = keep_first (filter Q (A @ B)) @ grouped Qs (filter (\<lambda>y. \<not> Q y) (A @ B))"
    by (rule grouped_Cons)
  ultimately show ?case
    by (simp only: o fA fB)
qed

lemma matches_grouped:
  "keep_first (label_matches crit rows @ pattern_matches crit re rows)
     = grouped (criteria_preds crit re) rows"
  by (cases "labels_to_redact crit"; cases "text_patterns_to_redact crit")
     (simp_all add: grouped_def criteria_preds_def label_matches_def pattern_matches_def comp_def)

section \<open>Claims about \<open>get_filtered_predictions\<close>\<close>

text \<open>
  Claim C3, as amended. The claim says that the returned rows are in the order of the
  table. The source concatenates the label matches and then the matches of each pattern in
  turn, and \<open>drop_duplicates\<close> keeps the first occurrence of a row: the result is the label
  matches in table order, followed by the matches of each pattern in pattern order, in
  table order within one pattern, every row at its first occurrence only. It is in table
  order when the criteria select by one test only.
\<close>

theorem filtered_order_by_criterion:
  assumes "snd (get_filtered_predictions crit re (DataFrame rows0)) = Inr out"
  shows "iterrows out =
           keep_first (label_matches crit (map strip_text rows0)
                       @ pattern_matches crit re (map strip_text rows0))
         \<and> (single_criterion crit \<longrightarrow> subseq (iterrows out) (map strip_text rows0))"
  using filtered_rows(1) [OF assms] single_criterion_subseq [of crit "map strip_text rows0" re]
  by simp

text \<open>The amended claim C3 at the example table, filtered by the label \<open>name\<close> alone.\<close>

theorem filtered_order_by_criterion_witness:
  "snd (get_filtered_predictions labels_only literal_engine (DataFrame example_table))
     = Inr (DataFrame [example_row ''name'' ''a 1'' ''0'', example_row ''name'' ''ab'' ''1''])
   \<and> single_criterion labels_only
   \<and> [example_row ''name'' ''a 1'' ''0'', example_row ''name'' ''ab'' ''1'']
       = keep_first (label_matches labels_only (map strip_text example_table)
                     @ pattern_matches labels_only literal_engine (map strip_text example_table))
   \<and> subseq [example_row ''name'' ''a 1'' ''0'', example_row ''name'' ''ab'' ''1'']
        (map strip_text example_table)"
proof -
  have h: "snd (get_filtered_predictions labels_only literal_engine (DataFrame example_table))
     = Inr (DataFrame [example_row ''name'' ''a 1'' ''0'', example_row ''name'' ''ab'' ''1''])"
    by (simp add: get_filtered_predictions_def Let_def labels_only_def example_table_def
          example_row_def strip_text_def strip_def is_space_def)
  have s: "single_criterion labels_only"
    by (simp add: single_criterion_def labels_only_def)
  note t = filtered_order_by_criterion [OF h, unfolded iterrows.simps]
  from t h s show ?thesis by blast
qed

text \<open>
  Claim C3 as stated fails: with the patterns \<open>b\<close> and \<open>a\<close>, in this order, the rows
  that match \<open>b\<close> come first, and the first row of the table comes last.
\<close>

theorem filtered_order_counterexample:
  "snd (get_filtered_predictions two_patterns literal_engine (DataFrame example_table))
     = Inr (DataFrame [example_row ''other'' ''b'' ''0'', example_row ''name'' ''ab'' ''1'',
                       example_row ''name'' ''a 1'' ''0''])
   \<and> map strip_text example_table
       = [example_row ''name'' ''a 1'' ''0'', example_row ''other'' ''b'' ''0'',
          example_row ''name'' ''ab'' ''1'']
   \<and> \<not> subseq [example_row ''other'' ''b'' ''0'', example_row ''name'' ''ab'' ''1'',
                example_row ''name'' ''a 1'' ''0'']
               (map strip_text example_table)"
  by (simp add: get_filtered_predictions_def Let_def two_patterns_def literal_engine_def
        example_table_def example_row_def str_contains_def strip_text_def strip_def is_space_def)

text \<open>
  Claim C8, as amended. When at least one half of the criteria is enabled, filtering the
  result of the filter again, with the same criteria, returns the same rows (in the same
  order). When both halves are disabled the result is \<open>pd.DataFrame()\<close>, which has no
  \<open>text\<close> column, and the claim does not extend to it.
\<close>

theorem refilter_closed:
  assumes "snd (get_filtered_predictions crit re table) = Inr out"
    and "truthy (labels_to_redact crit) \<or> truthy (text_patterns_to_redact crit)"
  shows "snd (get_filtered_predictions crit re out) = Inr out"
proof -
  from assms(1) obtain rows0 where table: "table = DataFrame rows0"
    by (cases table) (auto simp: get_filtered_predictions_def)
  define rows where "rows = map strip_text rows0"
  have v: "patterns_valid crit re"
    using assms(1) table filtered_rows(2) by blast
  define ys where "ys = grouped (criteria_preds crit re) rows"
  have out: "out = DataFrame ys"
    using assms get_filtered_predictions_valid [OF v, of rows0] table
    by (simp add: matches_grouped ys_def rows_def)
  have "\<forall>r \<in> set ys. strip_text r = r"
    using set_grouped [of "criteria_preds crit re" rows]
    by (auto simp: ys_def rows_def strip_text_idem)
  then have "map strip_text ys = ys"
    by (simp add: map_idI)
  then show ?thesis
    using get_filtered_predictions_valid [OF v, of ys] assms(2)
    by (simp add: out matches_grouped ys_def grouped_idem)
qed

text \<open>The amended claim C8 at the example table, with the patterns \<open>b\<close> and \<open>a\<close>.\<close>

theorem refilter_closed_witness:
  "snd (get_filtered_predictions two_patterns literal_engine (DataFrame example_table))
     = Inr (DataFrame [example_row ''other'' ''b'' ''0'', example_row ''name'' ''ab'' ''1'',
                       example_row ''name'' ''a 1'' ''0''])
   \<and> (truthy (labels_to_redact two_patterns) \<or> truthy (text_patterns_to_redact two_patterns))
   \<and> snd (get_filtered_predictions two_patterns literal_engine
            (DataFrame [example_row ''other'' ''b'' ''0'', example_row ''name'' ''ab'' ''1'',
                        example_row ''name'' ''a 1'' ''0'']))
     = Inr (DataFrame [example_row ''other'' ''b'' ''0'', example_row ''name'' ''ab'' ''1'',
                       example_row ''name'' ''a 1'' ''0''])"
proof -
  have h: "snd (get_filtered_predictions two_patterns literal_engine (DataFrame example_table))
     = Inr (DataFrame [example_row ''other'' ''b'' ''0'', example_row ''name'' ''ab'' ''1'',
                       example_row ''name'' ''a 1'' ''0''])"
    by (simp add: get_filtered_predictions_def Let_def two_patterns_def literal_engine_def
          example_table_def example_row_def str_contains_def strip_text_def strip_def
          is_space_def)
  have t: "truthy (labels_to_redact two_patterns) \<or> truthy (text_patterns_to_redact two_patterns)"
    by (simp add: two_patterns_def)
  from refilter_closed [OF h t] h t show ?thesis by simp
qed

text \<open>
  Claim C8 as stated fails when both halves of the criteria are disabled: the first call
  returns the frame without columns, and the call on that frame raises \<open>KeyError\<close> at
  \<open>doc_predictions['text']\<close>.
\<close>

theorem refilter_counterexample:
  "snd (get_filtered_predictions nothing_enabled literal_engine (DataFrame example_table))
     = Inr EmptyDataFrame
   \<and> snd (get_filtered_predictions nothing_enabled literal_engine EmptyDataFrame)
     = Inl (KeyError ''text'')"
  by (simp add: get_filtered_predictions_def Let_def nothing_enabled_def)

text \<open>
  Claim C10. Whatever the criteria are, and whether the call returns or raises, it leaves
  the caller's table with the text of every row stripped and every other column as it was;
  a stripped text neither starts nor ends with whitespace.
\<close>

theorem filter_strips_callers_table:
  "fst (get_filtered_predictions crit re (DataFrame rows))
     = DataFrame (map (\<lambda>r. r\<lparr>text_col := strip (text_col r)\<rparr>) rows)
   \<and> dropWhile is_space (strip s) = strip s
   \<and> dropWhile is_space (rev (strip s)) = rev (strip s)"
  using strip_no_surrounding [of s]
  by (simp add: get_filtered_predictions_def Let_def strip_text_def [abs_def])

text \<open>Claim C10 at the example table, of which only the first row has a text to strip.\<close>

theorem filter_strips_callers_table_witness:
  "fst (get_filtered_predictions two_patterns literal_engine (DataFrame example_table))
     = DataFrame [example_row ''name'' ''a 1'' ''0'', example_row ''other'' ''b'' ''0'',
                  example_row ''name'' ''ab'' ''1'']"
  using filter_strips_callers_table [of two_patterns literal_engine example_table "[]"]
  by (simp add: example_table_def example_row_def strip_def is_space_def)

section \<open>Lemmas about paths and file names\<close>

lemma rfind_aux_cases:
  "rfind_aux c s i found = found \<or>
   (\<exists>k < length s. rfind_aux c s i found = i + int k \<and> s ! k = c)"
proof (induction s arbitrary: i found)
  case Nil show ?case by simp
next
  case (Cons x xs)
  define nf where "nf = (if x = c then i else found)"
  from Cons [of "i + 1" nf]
  consider "rfind_aux c xs (i + 1) nf = nf"
    | k where "k < length xs" "rfind_aux c xs (i + 1) nf = i + 1 + int k" "xs ! k = c"
    by blast
  then show ?case
  proof cases
    case 1
    show ?thesis
    proof (cases "x = c")
      case True
      with 1 have "rfind_aux c (x # xs) i found = i + int 0 \<and> (x # xs) ! 0 = c"
        by (simp add: nf_def)
      then show ?thesis by blast
    next
      case False
      with 1 show ?thesis by (simp add: nf_def)
    qed
  next
    case 2
    then have "Suc k < length (x # xs) \<and> rfind_aux c (x # xs) i found = i + int (Suc k)
        \<and> (x # xs) ! Suc k = c"
      by (simp add: nf_def)
    then show ?thesis by blast
  qed
qed

lemma rfind_nonneg:
  assumes "0 \<le> rfind c s"
  shows "nat (rfind c s) < length s \<and> s ! nat (rfind c s) = c"
  using rfind_aux_cases [of c s 0 "-1"] assms by (auto simp: rfind_def)

lemma skip_leading_dots_pos: "skip_leading_dots p i d \<Longrightarrow> i < d"
  by (subst (asm) skip_leading_dots.simps) (simp split: if_splits)

lemma splitext_parts:
  "fst (splitext p) @ snd (splitext p) = p
   \<and> (snd (splitext p) = [] \<or> (hd (snd (splitext p)) = CHR ''.'' \<and> fst (splitext p) \<noteq> []))"
proof (cases "rfind CHR ''.'' p > rfind CHR ''/'' p
    \<and> skip_leading_dots p (nat (rfind CHR ''/'' p + 1)) (nat (rfind CHR ''.'' p))")
  case False
  then show ?thesis by (auto simp: splitext_def Let_def)
next
  case True
  define d where "d = nat (rfind CHR ''.'' p)"
  from True have "skip_leading_dots p (nat (rfind CHR ''/'' p + 1)) d" by (simp add: d_def)
  from skip_leading_dots_pos [OF this] have "0 < d" by simp
  then have "0 \<le> rfind CHR ''.'' p" by (simp add: d_def)
  from rfind_nonneg [OF this] have d: "d < length p" "p ! d = CHR ''.''" by (simp_all add: d_def)
  from True have s: "splitext p = (take d p, drop d p)" by (simp add: splitext_def Let_def d_def)
  from d \<open>0 < d\<close> show ?thesis by (auto simp: s hd_drop_conv_nth)
qed

lemma preload_filename_stem:
  "preload_filename doc pid ext = stem_of doc pid ext @ ''+'' @ pid @ ext"
  by (simp add: preload_filename_def stem_of_def Let_def)

lemma stem_of_cases:
  "stem_of doc pid ext = doc \<or> stem_of doc pid ext = fst (splitext doc)"
  by (simp add: stem_of_def)

lemma preload_filename_inj:
  assumes "preload_filename doc p ext = preload_filename doc q ext"
  shows "p = q"
proof -
  define a where "a = fst (splitext doc)"
  define e where "e = snd (splitext doc)"
  have doc: "doc = a @ e" and e: "e = [] \<or> hd e = CHR ''.''"
    using splitext_parts [of doc] by (auto simp: a_def e_def)
  have eq: "stem_of doc p ext @ ''+'' @ p @ ext = stem_of doc q ext @ ''+'' @ q @ ext"
    using assms by (simp add: preload_filename_stem)
  consider "stem_of doc p ext = stem_of doc q ext"
    | "stem_of doc p ext = a @ e" "stem_of doc q ext = a"
    | "stem_of doc p ext = a" "stem_of doc q ext = a @ e"
    using stem_of_cases [of doc p ext] stem_of_cases [of doc q ext] doc a_def by metis
  then show ?thesis
  proof cases
    case 1
    with eq show ?thesis by simp
  next
    case 2
    with eq have "e @ ''+'' @ p @ ext = ''+'' @ q @ ext" by simp
    with e show ?thesis by (cases e) auto
  next
    case 3
    with eq have "''+'' @ p @ ext = e @ ''+'' @ q @ ext" by simp
    with e show ?thesis by (cases e) auto
  qed
qed

lemma preload_filename_first:
  "take 1 (preload_filename doc p ext) = take 1 (preload_filename doc q ext)"
proof -
  define a where "a = fst (splitext doc)"
  define e where "e = snd (splitext doc)"
  have doc: "doc = a @ e" and e: "e = [] \<or> a \<noteq> []"
    using splitext_parts [of doc] by (auto simp: a_def e_def)
  have "take 1 (stem_of doc x ext @ ''+'' @ x @ ext) = take 1 (a @ ''+'')" for x
  proof -
    have c: "stem_of doc x ext = a @ e \<or> stem_of doc x ext = a"
      using stem_of_cases [of doc x ext] doc a_def by metis
    show ?thesis
    proof (cases a)
      case Nil
      with e c show ?thesis by auto
    next
      case (Cons y ys)
      with c show ?thesis by auto
    qed
  qed
  then show ?thesis by (simp add: preload_filename_stem)
qed

lemma path_join_inj:
  assumes "path_join d (preload_filename doc p ext) = path_join d (preload_filename doc q ext)"
  shows "p = q"
proof -
  have "prefix ''/'' k \<longleftrightarrow> take 1 k = ''/''" for k :: string
    by (cases k) auto
  then have "prefix ''/'' (preload_filename doc p ext) = prefix ''/'' (preload_filename doc q ext)"
    using preload_filename_first [of doc p ext q] by simp
  with assms have "preload_filename doc p ext = preload_filename doc q ext"
    by (auto simp: path_join_def split: if_splits)
  then show ?thesis by (rule preload_filename_inj)
qed




section \<open>Lemmas about the loops of \<open>get_entities\<close>\<close>

lemma keys_Nil: "keys [] = []"
  by (simp add: keys_def)

lemma keys_dict_set:
  "keys (dict_set k v kvs) = (if k \<in> set (keys kvs) then keys kvs else keys kvs @ [k])"
proof (induction kvs)
  case Nil
  show ?case by (simp add: keys_def)
next
  case (Cons kv kvs)
  obtain k' v' where kv: "kv = (k', v')" by (cases kv)
  show ?case using Cons by (simp add: kv keys_def)
qed

lemma set_keys_dict_set: "set (keys (dict_set k v kvs)) = insert k (set (keys kvs))"
  by (auto simp: keys_dict_set)

lemma map_of_dict_set: "map_of (dict_set k v kvs) = (map_of kvs)(k \<mapsto> v)"
proof (induction kvs)
  case Nil
  show ?case by simp
next
  case (Cons kv kvs)
  obtain k' v' where kv: "kv = (k', v')" by (cases kv)
  show ?case using Cons by (auto simp: kv fun_eq_iff)
qed

lemma map_of_keys: "(map_of kvs k = None) = (k \<notin> set (keys kvs))"
  by (simp add: map_of_eq_None_iff keys_def)

lemma preload_row_inv:
  "preload_inv self doc st \<Longrightarrow> preload_inv self doc (preload_row self cv doc st r)"
  unfolding preload_inv_def preload_row_def Let_def
  by (auto simp: set_keys_dict_set split: option.splits)

lemma preload_row_keys:
  assumes "preload_inv self doc st"
  shows "keys (redacted_images_per_page (preload_row self cv doc st r)) =
     keys (redacted_images_per_page st) @
       (if page_loads self cv doc (page_id r)
           \<and> preload_filename doc (page_id r) (img_extension self)
                \<notin> set (keys (redacted_images_per_page st))
        then [preload_filename doc (page_id r) (img_extension self)] else [])"
  using assms unfolding preload_inv_def preload_row_def Let_def page_loads_def page_path_def
  by (auto simp: keys_dict_set split: option.splits)

lemma preload_keys:
  assumes "preload_inv self doc st"
  shows "keys (redacted_images_per_page (preload self cv doc st rows)) =
     keys (redacted_images_per_page st) @
       keep_first (filter (\<lambda>k. k \<notin> set (keys (redacted_images_per_page st)))
         (map (\<lambda>r. preload_filename doc (page_id r) (img_extension self))
              (filter (\<lambda>r. page_loads self cv doc (page_id r)) rows)))"
  using assms
proof (induction rows arbitrary: st)
  case Nil
  show ?case by (simp add: preload_def)
next
  case (Cons r rows)
  define st' where "st' = preload_row self cv doc st r"
  let ?K = "set (keys (redacted_images_per_page st))"
  let ?f = "\<lambda>r :: row. preload_filename doc (page_id r) (img_extension self)"
  let ?xs = "map ?f (filter (\<lambda>r. page_loads self cv doc (page_id r)) rows)"
  have inv': "preload_inv self doc st'" using Cons.prems by (simp add: st'_def preload_row_inv)
  have p: "preload self cv doc st (r # rows) = preload self cv doc st' rows"
    by (simp add: preload_def st'_def)
  note k = preload_row_keys [OF Cons.prems, of cv r, folded st'_def]
  note ih = Cons.IH [OF inv']
  show ?case
  proof (cases "page_loads self cv doc (page_id r) \<and> ?f r \<notin> ?K")
    case True
    then have k': "keys (redacted_images_per_page st') = keys (redacted_images_per_page st) @ [?f r]"
      using k by simp
    have "filter (\<lambda>k. k \<notin> set (keys (redacted_images_per_page st'))) ?xs
        = filter (\<lambda>y. y \<noteq> ?f r) (filter (\<lambda>k. k \<notin> ?K) ?xs)"
      by (auto simp: k' intro: filter_cong)
    with True show ?thesis
      unfolding p ih by (simp add: k')
  next
    case False
    then have k': "keys (redacted_images_per_page st') = keys (redacted_images_per_page st)"
      using k by auto
    from False show ?thesis
      unfolding p ih by (auto simp: k')
  qed
qed

lemma preload_row_frame:
  "redacted_text_per_page (preload_row self cv doc st r) = redacted_text_per_page st
   \<and> uuid_calls (preload_row self cv doc st r) = uuid_calls st"
  by (simp add: preload_row_def Let_def split: option.splits)

lemma preload_frame:
  "redacted_text_per_page (preload self cv doc st rows) = redacted_text_per_page st
   \<and> uuid_calls (preload self cv doc st rows) = uuid_calls st"
  unfolding preload_def
  by (induction rows arbitrary: st) (simp_all add: preload_row_frame)

lemma page_id_assign_ids: "map page_id (assign_ids cv n rows) = map page_id rows"
  by (induction rows arbitrary: n) simp_all

lemma length_assign_ids: "length (assign_ids cv n rows) = length rows"
  by (induction rows arbitrary: n) simp_all

lemma loaded_files_page_ids:
  "loaded_files self cv doc rows =
     keep_first (map (\<lambda>p. preload_filename doc p (img_extension self))
                  (filter (page_loads self cv doc) (map page_id rows)))"
  by (simp add: loaded_files_def filter_map comp_def)

lemma loaded_files_assign_ids:
  "loaded_files self cv doc (assign_ids cv' n rows) = loaded_files self cv doc rows"
  by (simp add: loaded_files_page_ids page_id_assign_ids)

lemma preload_fresh_keys:
  assumes "redacted_images_per_page st = []" "processed_page_ids st = {}"
  shows "keys (redacted_images_per_page (preload self cv doc st rows)) = loaded_files self cv doc rows"
proof -
  have "preload_inv self doc st" using assms by (simp add: preload_inv_def)
  from preload_keys [OF this] show ?thesis
    using assms by (simp add: keys_Nil loaded_files_def)
qed

lemma loaded_files_load:
  "k \<in> set (loaded_files self cv doc rows) \<Longrightarrow> imread cv (path_join (resource_dir self) k) \<noteq> None"
  by (auto simp: loaded_files_def set_keep_first page_loads_def page_path_def)

lemma map_of_Some_key: "map_of kvs k = Some v \<Longrightarrow> k \<in> set (keys kvs)"
  using map_of_keys [of kvs k] by simp

lemma map_of_None_key: "map_of kvs k = None \<Longrightarrow> k \<notin> set (keys kvs)"
  using map_of_keys [of kvs k] by simp

lemma redact_row_Inr:
  assumes "redact_row self cv doc st r = Inr st'"
  shows "keys (redacted_images_per_page st') = keys (redacted_images_per_page st)"
    and "redacted_text_per_page st' =
           (redacted_text_per_page st)
             (page_id r := text_step (redacted_text_per_page st (page_id r)) (text_col r))"
    and "uuid_calls st' = uuid_calls st"
    and "redact_filename doc (page_id r) (img_extension self) \<in> set (keys (redacted_images_per_page st))"
  using assms
  by (auto simp: redact_row_def Let_def keys_dict_set text_step_def
      dest: map_of_Some_key split: option.splits)

lemma redact_row_Inl:
  assumes "redact_row self cv doc st r = Inl e"
  shows "e = PyError (KeyError (redact_filename doc (page_id r) (img_extension self)))"
    and "redact_filename doc (page_id r) (img_extension self) \<notin> set (keys (redacted_images_per_page st))"
  using assms
  by (auto simp: redact_row_def Let_def dest: map_of_None_key split: option.splits)

lemma redact_rows_Inr:
  assumes "redact_rows self cv doc st rows = Inr st'"
  shows "keys (redacted_images_per_page st') = keys (redacted_images_per_page st)
    \<and> uuid_calls st' = uuid_calls st
    \<and> (\<forall>p. redacted_text_per_page st' p =
          foldl text_step (redacted_text_per_page st p)
            (map text_col (filter (\<lambda>r. page_id r = p) rows)))
    \<and> (\<forall>r \<in> set rows. redact_filename doc (page_id r) (img_extension self)
          \<in> set (keys (redacted_images_per_page st)))"
  using assms
proof (induction rows arbitrary: st)
  case Nil
  then show ?case by simp
next
  case (Cons r rows)
  from Cons.prems obtain st1 where 1: "redact_row self cv doc st r = Inr st1"
    and 2: "redact_rows self cv doc st1 rows = Inr st'"
    by (auto split: sum.splits)
  note a = redact_row_Inr [OF 1]
  note b = Cons.IH [OF 2]
  show ?case using b by (simp add: a)
qed

lemma redact_rows_Inl:
  assumes "redact_rows self cv doc st rows = Inl e"
  shows "\<exists>r \<in> set rows.
     e = PyError (KeyError (redact_filename doc (page_id r) (img_extension self)))
     \<and> redact_filename doc (page_id r) (img_extension self) \<notin> set (keys (redacted_images_per_page st))"
  using assms
proof (induction rows arbitrary: st)
  case Nil
  then show ?case by simp
next
  case (Cons r rows)
  show ?case
  proof (cases "redact_row self cv doc st r")
    case (Inl e')
    with Cons.prems have "e' = e" by simp
    with redact_row_Inl [OF Inl] show ?thesis by simp
  next
    case (Inr st1)
    with Cons.prems have "redact_rows self cv doc st1 rows = Inl e" by simp
    from Cons.IH [OF this] redact_row_Inr(1) [OF Inr] show ?thesis by auto
  qed
qed

lemma redact_rows_missing:
  assumes "r \<in> set rows"
    and "redact_filename doc (page_id r) (img_extension self) \<notin> set (keys (redacted_images_per_page st))"
  shows "\<exists>k. redact_rows self cv doc st rows = Inl (PyError (KeyError k))"
proof (cases "redact_rows self cv doc st rows")
  case (Inl e)
  from redact_rows_Inl [OF this] Inl show ?thesis by auto
next
  case (Inr st')
  from redact_rows_Inr [OF this] assms show ?thesis by auto
qed

lemma join_Cons: "join sep (t # ts) = t @ concat (map (\<lambda>x. sep @ x) ts)"
  by (induction ts arbitrary: t) simp_all

lemma foldl_text_step_Some:
  "foldl text_step (Some a) ts = Some (a @ concat (map (\<lambda>x. '' | '' @ x) ts))"
  by (induction ts arbitrary: a) (simp_all add: text_step_def)

lemma foldl_text_step_None:
  "foldl text_step None ts = (if ts = [] then None else Some (join '' | '' ts))"
  by (cases ts) (simp_all add: foldl_text_step_Some join_Cons text_step_def)


lemma process_doc_Inr:
  assumes "process_doc self crit re cv st d = Inr st'"
  shows "\<exists>f. snd (get_filtered_predictions crit re
                  (DataFrame (assign_ids cv (uuid_calls st) (snd d)))) = Inr f
    \<and> keys (redacted_images_per_page st') = loaded_files self cv (fst d) (snd d)
    \<and> uuid_calls st' = uuid_calls st + length (snd d)
    \<and> (\<forall>p. redacted_text_per_page st' p =
          foldl text_step (redacted_text_per_page st p)
            (map text_col (filter (\<lambda>r. page_id r = p) (iterrows f))))
    \<and> (\<forall>r \<in> set (iterrows f). redact_filename (fst d) (page_id r) (img_extension self)
          \<in> set (loaded_files self cv (fst d) (snd d)))"
proof -
  define rows where "rows = assign_ids cv (uuid_calls st) (snd d)"
  define st1 where "st1 = st\<lparr>uuid_calls := uuid_calls st + length rows,
                   redacted_images_per_page := [], processed_page_ids := {}\<rparr>"
  define st2 where "st2 = preload self cv (fst d) st1 rows"
  from assms obtain f where f: "snd (get_filtered_predictions crit re (DataFrame rows)) = Inr f"
    and r: "redact_rows self cv (fst d) st2 (iterrows f) = Inr st'"
    by (auto simp: process_doc_def Let_def rows_def st1_def st2_def split: sum.splits)
  have k2: "keys (redacted_images_per_page st2) = loaded_files self cv (fst d) (snd d)"
    unfolding st2_def
    by (subst preload_fresh_keys) (simp_all add: st1_def rows_def loaded_files_assign_ids)
  have t2: "redacted_text_per_page st2 = redacted_text_per_page st"
    and u2: "uuid_calls st2 = uuid_calls st + length (snd d)"
    by (simp_all add: st2_def preload_frame st1_def rows_def length_assign_ids)
  from redact_rows_Inr [OF r] f show ?thesis
    by (simp add: k2 t2 u2 rows_def)
qed

lemma process_doc_Inl:
  assumes "process_doc self crit re cv st d = Inl e"
  shows "(\<exists>p. e = PyError (ReError p) \<and> \<not> patterns_valid crit re)
       \<or> (\<exists>k. e = PyError (KeyError k))"
proof (cases "snd (get_filtered_predictions crit re (DataFrame (assign_ids cv (uuid_calls st) (snd d))))")
  case (Inl e')
  then have "\<not> patterns_valid crit re"
    using get_filtered_predictions_valid [of crit re] by auto
  moreover from get_filtered_predictions_invalid [OF this, of "assign_ids cv (uuid_calls st) (snd d)"] Inl
  obtain p where "e' = ReError p" by auto
  moreover from Inl assms have "e = PyError e'" by (simp add: process_doc_def Let_def)
  ultimately show ?thesis by simp
next
  case (Inr f)
  with assms obtain st2 where "redact_rows self cv (fst d) st2 (iterrows f) = Inl e"
    by (auto simp: process_doc_def Let_def)
  from redact_rows_Inl [OF this] show ?thesis by auto
qed

lemma process_docs_Inr:
  assumes "process_docs self crit re cv st docs = Inr st'"
  shows "(docs \<noteq> [] \<longrightarrow>
            keys (redacted_images_per_page st')
              = loaded_files self cv (fst (last docs)) (snd (last docs)))
    \<and> (docs = [] \<longrightarrow> st' = st)
    \<and> (\<forall>p. redacted_text_per_page st' p =
          foldl text_step (redacted_text_per_page st p)
            (map text_col (filter (\<lambda>r. page_id r = p)
               (all_filtered crit re cv (uuid_calls st) docs))))"
  using assms
proof (induction docs arbitrary: st)
  case Nil
  then show ?case by simp
next
  case (Cons d docs)
  from Cons.prems obtain st1 where 1: "process_doc self crit re cv st d = Inr st1"
    and 2: "process_docs self crit re cv st1 docs = Inr st'"
    by (auto split: sum.splits)
  from process_doc_Inr [OF 1] obtain f where
    f: "snd (get_filtered_predictions crit re
              (DataFrame (assign_ids cv (uuid_calls st) (snd d)))) = Inr f"
    and k: "keys (redacted_images_per_page st1) = loaded_files self cv (fst d) (snd d)"
    and u: "uuid_calls st1 = uuid_calls st + length (snd d)"
    and t: "\<forall>p. redacted_text_per_page st1 p =
          foldl text_step (redacted_text_per_page st p)
            (map text_col (filter (\<lambda>r. page_id r = p) (iterrows f)))"
    by blast
  note ih = Cons.IH [OF 2]
  show ?case
  proof (cases "docs = []")
    case True
    with ih k t f show ?thesis by simp
  next
    case False
    with ih t f u show ?thesis by simp
  qed
qed

lemma build_bundles_Inr:
  assumes "build_bundles self cv texts kvs = Inr bs"
  shows "list_all2 (\<lambda>b kv. page_index_of (fst kv) (img_extension self) = Inr (pageIndex b)
            \<and> redactedData b = lookup_text cv texts (pageIndex b)
            \<and> imencode_b64 cv (snd kv) = Some (image b)) bs kvs"
  using assms
proof (induction kvs arbitrary: bs)
  case Nil
  then show ?case by simp
next
  case (Cons kv kvs)
  from Cons.prems obtain b bs' where b: "build_bundle self cv texts kv = Inr b"
    and bs': "build_bundles self cv texts kvs = Inr bs'" and bs: "bs = b # bs'"
    by (auto split: sum.splits)
  from b have "page_index_of (fst kv) (img_extension self) = Inr (pageIndex b)
      \<and> redactedData b = lookup_text cv texts (pageIndex b)
      \<and> imencode_b64 cv (snd kv) = Some (image b)"
    by (auto simp: build_bundle_def split: option.splits sum.splits)
  with Cons.IH [OF bs'] show ?case by (simp add: bs)
qed

lemma set_grouped_eq: "set (grouped Qs xs) = {x \<in> set xs. \<exists>Q \<in> set Qs. Q x}"
  by (auto simp: grouped_def set_keep_first)

lemma assign_ids_mem:
  "r \<in> set rows \<Longrightarrow> \<exists>i. r\<lparr>id_col := i\<rparr> \<in> set (assign_ids cv n rows)"
  by (induction rows arbitrary: n) auto

lemma criteria_preds_ignore_id:
  "Q \<in> set (criteria_preds crit re) \<Longrightarrow> Q (strip_text (r\<lparr>id_col := i\<rparr>)) = Q (strip_text r)"
  by (cases "labels_to_redact crit"; cases "text_patterns_to_redact crit")
     (auto simp: criteria_preds_def strip_text_def)

lemma row_selected_truthy:
  "row_selected crit re r \<Longrightarrow>
   truthy (labels_to_redact crit) \<or> truthy (text_patterns_to_redact crit)"
  by (cases "labels_to_redact crit"; cases "text_patterns_to_redact crit")
     (auto simp: row_selected_def criteria_preds_def list_ex_iff)

lemma selected_in_filtered:
  assumes "patterns_valid crit re" "r \<in> set rows" "row_selected crit re r"
  shows "\<exists>f. snd (get_filtered_predictions crit re (DataFrame (assign_ids cv n rows))) = Inr f
           \<and> (\<exists>r' \<in> set (iterrows f). page_id r' = page_id r)"
proof -
  from assms(2) obtain i where i: "r\<lparr>id_col := i\<rparr> \<in> set (assign_ids cv n rows)"
    using assign_ids_mem by blast
  from assms(3) obtain Q where Q: "Q \<in> set (criteria_preds crit re)" "Q (strip_text r)"
    by (auto simp: row_selected_def list_ex_iff)
  let ?x = "strip_text (r\<lparr>id_col := i\<rparr>)"
  let ?ys = "grouped (criteria_preds crit re) (map strip_text (assign_ids cv n rows))"
  have "Q ?x" using Q criteria_preds_ignore_id by blast
  with i Q(1) have "?x \<in> set ?ys" by (auto simp: set_grouped_eq)
  moreover have "page_id ?x = page_id r" by (simp add: strip_text_def)
  moreover have "snd (get_filtered_predictions crit re (DataFrame (assign_ids cv n rows)))
      = Inr (DataFrame ?ys)"
    using get_filtered_predictions_valid [OF assms(1), of "assign_ids cv n rows"]
      row_selected_truthy [OF assms(3)]
    by (simp add: matches_grouped)
  ultimately show ?thesis by auto
qed


lemma pattern_frames_fault_indep:
  "pattern_frames re ps rows = Inl e \<Longrightarrow> pattern_frames re ps rows' = Inl e"
  by (induction ps) (auto simp: str_contains_def split: sum.splits if_splits)

lemma get_filtered_predictions_fault_indep:
  assumes "snd (get_filtered_predictions crit re (DataFrame rows)) = Inl e"
  shows "snd (get_filtered_predictions crit re (DataFrame rows')) = Inl e"
proof -
  have nv: "\<not> patterns_valid crit re"
    using assms get_filtered_predictions_valid [of crit re rows] by auto
  then have t: "truthy (text_patterns_to_redact crit)"
    using patterns_valid_falsy by blast
  have "pattern_frames re (the (text_patterns_to_redact crit)) (map strip_text rows) = Inl e"
  proof (cases "pattern_frames re (the (text_patterns_to_redact crit)) (map strip_text rows)")
    case (Inl e')
    with assms t show ?thesis by (simp add: get_filtered_predictions_def Let_def)
  next
    case (Inr fs)
    from pattern_frames_Inr [OF this] t nv show ?thesis by (simp add: patterns_valid_truthy)
  qed
  from pattern_frames_fault_indep [OF this, of "map strip_text rows'"] t show ?thesis
    by (simp add: get_filtered_predictions_def Let_def)
qed


lemma preload_row_reads:
  "count_list (imread_calls (preload_row self cv doc st r)) (page_path self doc p) =
     count_list (imread_calls st) (page_path self doc p)
       + (if page_id r = p \<and> p \<notin> processed_page_ids st then 1 else 0)"
  using path_join_inj [of "resource_dir self" doc "page_id r" "img_extension self" p]
  by (auto simp: preload_row_def Let_def page_path_def split: option.splits)

lemma preload_row_processed:
  "processed_page_ids (preload_row self cv doc st r) =
     (if page_id r \<notin> processed_page_ids st \<and> page_loads self cv doc (page_id r)
      then insert (page_id r) (processed_page_ids st) else processed_page_ids st)"
  by (auto simp: preload_row_def Let_def page_loads_def page_path_def split: option.splits)

lemma preload_reads:
  "count_list (imread_calls (preload self cv doc st rows)) (page_path self doc p) =
     count_list (imread_calls st) (page_path self doc p)
       + (if p \<in> processed_page_ids st then 0
          else if page_loads self cv doc p then min 1 (count_list (map page_id rows) p)
          else count_list (map page_id rows) p)"
proof (induction rows arbitrary: st)
  case Nil
  show ?case by (simp add: preload_def)
next
  case (Cons r rows)
  have p: "preload self cv doc st (r # rows) = preload self cv doc (preload_row self cv doc st r) rows"
    by (simp add: preload_def)
  show ?case
    unfolding p Cons.IH preload_row_reads preload_row_processed
    by auto
qed

lemma process_doc_missing:
  assumes "patterns_valid crit re" "r \<in> set rows" "row_selected crit re r"
    and "\<not> page_loads self cv doc (page_id r)"
  shows "\<exists>k. process_doc self crit re cv st (doc, rows) = Inl (PyError (KeyError k))"
proof (cases "process_doc self crit re cv st (doc, rows)")
  case (Inl e)
  from process_doc_Inl [OF this] assms(1) Inl show ?thesis by auto
next
  case (Inr st')
  from process_doc_Inr [OF this] obtain f where
    f: "snd (get_filtered_predictions crit re
              (DataFrame (assign_ids cv (uuid_calls st) rows))) = Inr f"
    and m: "\<forall>r \<in> set (iterrows f). redact_filename doc (page_id r) (img_extension self)
          \<in> set (loaded_files self cv doc rows)"
    by auto
  from selected_in_filtered [OF assms(1-3), of cv "uuid_calls st"] f
  obtain r' where "r' \<in> set (iterrows f)" "page_id r' = page_id r" by auto
  with m have "redact_filename doc (page_id r) (img_extension self)
      \<in> set (loaded_files self cv doc rows)" by force
  from loaded_files_load [OF this] have "page_loads self cv doc (page_id r)"
    by (simp add: page_loads_def page_path_def preload_filename_def redact_filename_def Let_def)
  with assms(4) show ?thesis by simp
qed

lemma process_docs_missing:
  assumes "patterns_valid crit re" "(doc, rows) \<in> set docs" "r \<in> set rows"
    and "row_selected crit re r" "\<not> page_loads self cv doc (page_id r)"
  shows "\<exists>k. process_docs self crit re cv st docs = Inl (PyError (KeyError k))"
  using assms(2)
proof (induction docs arbitrary: st)
  case Nil
  then show ?case by simp
next
  case (Cons d docs)
  show ?case
  proof (cases "process_doc self crit re cv st d")
    case (Inl e)
    from process_doc_Inl [OF this] assms(1) Inl show ?thesis by auto
  next
    case (Inr st')
    have "d \<noteq> (doc, rows)"
      using process_doc_missing [OF assms(1,3,4,5), of st] Inr by auto
    with Cons.prems have "(doc, rows) \<in> set docs" by simp
    from Cons.IH [OF this, of st'] Inr show ?thesis by simp
  qed
qed

lemma get_entities_Inr:
  assumes "get_entities self crit re cv docs = Inr bundles" "has_labelling_model self"
  shows "\<exists>st. process_docs self crit re cv initial_locals docs = Inr st
     \<and> build_bundles self cv (redacted_text_per_page st) (redacted_images_per_page st) = Inr bundles"
  using assms by (auto simp: get_entities_def split: sum.splits)

lemma bundles_keys:
  assumes "build_bundles self cv texts kvs = Inr bs"
  shows "list_all2 (\<lambda>b k. page_index_of k (img_extension self) = Inr (pageIndex b)) bs (keys kvs)"
  using build_bundles_Inr [OF assms]
  by (simp add: keys_def list_all2_map2 list_all2_mono)


lemma process_docs_initial:
  assumes "process_docs self crit re cv initial_locals docs = Inr st"
  shows "keys (redacted_images_per_page st) = final_cache_keys self cv docs"
    and "redacted_text_per_page st p =
          foldl text_step None
            (map text_col (filter (\<lambda>r. page_id r = p) (all_filtered crit re cv 0 docs)))"
proof -
  note a = process_docs_Inr [OF assms]
  show "keys (redacted_images_per_page st) = final_cache_keys self cv docs"
  proof (cases "docs = []")
    case True
    with a show ?thesis by (simp add: final_cache_keys_def initial_locals_def keys_Nil)
  next
    case False
    with a show ?thesis by (simp add: final_cache_keys_def)
  qed
  from a show "redacted_text_per_page st p =
          foldl text_step None
            (map text_col (filter (\<lambda>r. page_id r = p) (all_filtered crit re cv 0 docs)))"
    by (simp add: initial_locals_def)
qed



lemma pattern_frames_first_fault:
  assumes "list_all (re_valid re) ps1" "\<not> re_valid re p"
  shows "pattern_frames re (ps1 @ p # ps2) rows = Inl (ReError p)"
  using assms by (induction ps1) (auto simp: str_contains_def split: sum.splits)

lemma get_filtered_predictions_first_fault:
  assumes "text_patterns_to_redact crit = Some (ps1 @ p # ps2)"
    and "list_all (re_valid re) ps1" "\<not> re_valid re p"
  shows "snd (get_filtered_predictions crit re (DataFrame rows)) = Inl (ReError p)"
  using assms pattern_frames_first_fault [OF assms(2,3), of ps2 "map strip_text rows"]
  by (simp add: get_filtered_predictions_def Let_def)

lemma first_malformed_pattern:
  assumes "\<not> patterns_valid crit re"
  shows "\<exists>ps1 p ps2. text_patterns_to_redact crit = Some (ps1 @ p # ps2)
           \<and> list_all (re_valid re) ps1 \<and> \<not> re_valid re p"
proof -
  from assms obtain ps where ps: "text_patterns_to_redact crit = Some ps"
    and "\<exists>p \<in> set ps. \<not> re_valid re p"
    by (cases "text_patterns_to_redact crit") (auto simp: patterns_valid_def list_all_iff)
  from split_list_first_prop [OF this(2)] obtain ps1 p ps2 where
    "ps = ps1 @ p # ps2" "\<not> re_valid re p" "\<forall>q \<in> set ps1. \<not> \<not> re_valid re q"
    by blast
  with ps show ?thesis by (auto simp: list_all_iff)
qed

text \<open>The loops over the documents do not depend on the type of the page identifiers.\<close>

lemma assign_ids_page_id_type:
  "assign_ids (cv\<lparr>page_id_is_str := b\<rparr>) n rows = assign_ids cv n rows"
  by (induction rows arbitrary: n) simp_all




lemma all_filtered_page_id_type:
  "all_filtered crit re (cv\<lparr>page_id_is_str := b\<rparr>) n docs = all_filtered crit re cv n docs"
  by (induction docs arbitrary: n) (simp_all add: assign_ids_page_id_type)
section \<open>Runs on the concrete inputs\<close>




text \<open>
  Two documents, filtered by the label \<open>name\<close>: the cache holds the pages of the second
  document only, and the text of page 0 starts with the text redacted on page 0 of the
  first document.
\<close>

lemma two_documents_run:
  "process_docs example_self labels_only literal_engine example_cv initial_locals
     [(''b.pdf'', other_table), (''a.pdf'', example_table)]
   = Inr \<lparr>redacted_images_per_page =
        [(''a.pdf+0.png'', ''/res/a.pdf+0.png#''), (''a.pdf+1.png'', ''/res/a.pdf+1.png#'')],
      redacted_text_per_page = [''0'' \<mapsto> ''x | a 1'', ''1'' \<mapsto> ''ab''],
      processed_page_ids = {''1'', ''0''},
      imread_calls = [''/res/b.pdf+0.png'', ''/res/a.pdf+0.png'', ''/res/a.pdf+1.png''],
      uuid_calls = Suc (Suc (Suc (Suc 0)))\<rparr>"
proof -
  let ?q1 = "(example_row ''name'' ''x'' ''0'')\<lparr>id_col := ''u''\<rparr>"
  let ?r1 = "(example_row ''name'' ''  a 1 '' ''0'')\<lparr>id_col := ''uu''\<rparr>"
  let ?r2 = "(example_row ''other'' ''b'' ''0'')\<lparr>id_col := ''uuu''\<rparr>"
  let ?r3 = "(example_row ''name'' ''ab'' ''1'')\<lparr>id_col := ''uuuu''\<rparr>"
  let ?s1 = "(example_row ''name'' ''a 1'' ''0'')\<lparr>id_col := ''uu''\<rparr>"
  let ?a1 = "\<lparr>redacted_images_per_page = [], redacted_text_per_page = Map.empty,
      processed_page_ids = {}, imread_calls = [], uuid_calls = Suc 0\<rparr> :: string locals"
  let ?a2 = "\<lparr>redacted_images_per_page = [(''b.pdf+0.png'', ''/res/b.pdf+0.png'')],
      redacted_text_per_page = Map.empty,
      processed_page_ids = {''0''}, imread_calls = [''/res/b.pdf+0.png''],
      uuid_calls = Suc 0\<rparr> :: string locals"
  let ?a3 = "\<lparr>redacted_images_per_page = [(''b.pdf+0.png'', ''/res/b.pdf+0.png#'')],
      redacted_text_per_page = [''0'' \<mapsto> ''x''],
      processed_page_ids = {''0''}, imread_calls = [''/res/b.pdf+0.png''],
      uuid_calls = Suc 0\<rparr> :: string locals"
  let ?b1 = "\<lparr>redacted_images_per_page = [], redacted_text_per_page = [''0'' \<mapsto> ''x''],
      processed_page_ids = {}, imread_calls = [''/res/b.pdf+0.png''],
      uuid_calls = Suc (Suc (Suc (Suc 0)))\<rparr> :: string locals"
  let ?b2 = "\<lparr>redacted_images_per_page =
        [(''a.pdf+0.png'', ''/res/a.pdf+0.png''), (''a.pdf+1.png'', ''/res/a.pdf+1.png'')],
      redacted_text_per_page = [''0'' \<mapsto> ''x''],
      processed_page_ids = {''1'', ''0''},
      imread_calls = [''/res/b.pdf+0.png'', ''/res/a.pdf+0.png'', ''/res/a.pdf+1.png''],
      uuid_calls = Suc (Suc (Suc (Suc 0)))\<rparr> :: string locals"
  let ?b3 = "\<lparr>redacted_images_per_page =
        [(''a.pdf+0.png'', ''/res/a.pdf+0.png#''), (''a.pdf+1.png'', ''/res/a.pdf+1.png#'')],
      redacted_text_per_page = [''0'' \<mapsto> ''x | a 1'', ''1'' \<mapsto> ''ab''],
      processed_page_ids = {''1'', ''0''},
      imread_calls = [''/res/b.pdf+0.png'', ''/res/a.pdf+0.png'', ''/res/a.pdf+1.png''],
      uuid_calls = Suc (Suc (Suc (Suc 0)))\<rparr> :: string locals"
  have ids1: "assign_ids example_cv 0 other_table = [?q1]"
    by (simp add: other_table_def example_cv_def)
  have pre1: "preload example_self example_cv ''b.pdf'' ?a1 [?q1] = ?a2"
    by (simp add: preload_def preload_row_def preload_filename_def path_join_def Let_def
        example_self_def example_cv_def example_row_def)
  have flt1: "snd (get_filtered_predictions labels_only literal_engine (DataFrame [?q1]))
      = Inr (DataFrame [?q1])"
    by (simp add: get_filtered_predictions_def Let_def labels_only_def
        example_row_def strip_text_def strip_def is_space_def)
  have red1: "redact_rows example_self example_cv ''b.pdf'' ?a2 [?q1] = Inr ?a3"
    by (simp add: redact_row_def redact_region_def redact_filename_def Let_def
        example_self_def example_cv_def example_row_def)
  have doc1: "process_doc example_self labels_only literal_engine example_cv initial_locals
      (''b.pdf'', other_table) = Inr ?a3"
    by (simp add: process_doc_def Let_def initial_locals_def ids1 pre1 flt1 red1
        del: redact_rows.simps)
  have ids2: "assign_ids example_cv (Suc 0) example_table = [?r1, ?r2, ?r3]"
    by (simp add: example_table_def example_cv_def)
  have pre2: "preload example_self example_cv ''a.pdf'' ?b1 [?r1, ?r2, ?r3] = ?b2"
    by (simp add: preload_def preload_row_def preload_filename_def path_join_def Let_def
        example_self_def example_cv_def example_row_def)
  have flt2: "snd (get_filtered_predictions labels_only literal_engine (DataFrame [?r1, ?r2, ?r3]))
      = Inr (DataFrame [?s1, ?r3])"
    by (simp add: get_filtered_predictions_def Let_def labels_only_def
        example_row_def strip_text_def strip_def is_space_def)
  have red2: "redact_rows example_self example_cv ''a.pdf'' ?b2 [?s1, ?r3] = Inr ?b3"
    by (simp add: redact_row_def redact_region_def redact_filename_def Let_def
        example_self_def example_cv_def example_row_def fun_upd_twist)
  have doc2: "process_doc example_self labels_only literal_engine example_cv ?a3
      (''a.pdf'', example_table) = Inr ?b3"
    by (simp add: process_doc_def Let_def ids2 pre2 flt2 red2 del: redact_rows.simps)
  show ?thesis
    by (simp add: doc1 doc2)
qed

lemma two_documents_bundles:
  "get_entities example_self labels_only literal_engine example_cv
     [(''b.pdf'', other_table), (''a.pdf'', example_table)]
   = Inr [\<lparr>pageIndex = ''0'', redactedData = ''x | a 1'', image = ''/res/a.pdf+0.png#''\<rparr>,
          \<lparr>pageIndex = ''1'', redactedData = ''ab'', image = ''/res/a.pdf+1.png#''\<rparr>]"
proof -
  have bun: "build_bundles example_self example_cv [''0'' \<mapsto> ''x | a 1'', ''1'' \<mapsto> ''ab'']
        [(''a.pdf+0.png'', ''/res/a.pdf+0.png#''), (''a.pdf+1.png'', ''/res/a.pdf+1.png#'')]
      = Inr [\<lparr>pageIndex = ''0'', redactedData = ''x | a 1'', image = ''/res/a.pdf+0.png#''\<rparr>,
          \<lparr>pageIndex = ''1'', redactedData = ''ab'', image = ''/res/a.pdf+1.png#''\<rparr>]"
    by (simp add: build_bundle_def lookup_text_def page_index_of_def split_def item_def
        example_self_def example_cv_def)
  show ?thesis
    by (simp add: get_entities_def two_documents_run bun
          del: build_bundles.simps process_docs.simps)
       (simp add: example_self_def)
qed


section \<open>Claims about \<open>get_entities\<close>\<close>

text \<open>
  Claim C5. When the labelling model is present and the patterns compile, a row that the
  criteria select and whose page did not load, in any document of the run, makes
  \<open>get_entities\<close> raise \<open>KeyError\<close> at the subscript of the image cache: the run returns
  no bundle list.
\<close>

theorem missing_page_is_fatal:
  assumes "has_labelling_model self" "patterns_valid crit re" "(doc, rows) \<in> set docs"
    and "r \<in> set rows" "row_selected crit re r" "\<not> page_loads self cv doc (page_id r)"
  shows "\<exists>k. get_entities self crit re cv docs = Inl (PyError (KeyError k))"
  using process_docs_missing [OF assms(2-6), of initial_locals] assms(1)
  by (auto simp: get_entities_def)

text \<open>
  Claim C5 at a table whose first row has the label \<open>name\<close> and lies on page 7, for which
  the resource directory has no file.
\<close>

theorem missing_page_is_fatal_witness:
  "has_labelling_model example_self \<and> patterns_valid labels_only literal_engine
   \<and> (''a.pdf'', missing_page_table) \<in> set [(''a.pdf'', missing_page_table)]
   \<and> example_row ''name'' ''a'' ''7'' \<in> set missing_page_table
   \<and> row_selected labels_only literal_engine (example_row ''name'' ''a'' ''7'')
   \<and> \<not> page_loads example_self example_cv ''a.pdf'' (page_id (example_row ''name'' ''a'' ''7''))
   \<and> (\<exists>k. get_entities example_self labels_only literal_engine example_cv
              [(''a.pdf'', missing_page_table)] = Inl (PyError (KeyError k)))"
proof -
  have 1: "has_labelling_model example_self" by (simp add: example_self_def)
  have 2: "patterns_valid labels_only literal_engine"
    by (simp add: patterns_valid_def labels_only_def)
  have 3: "(''a.pdf'', missing_page_table) \<in> set [(''a.pdf'', missing_page_table)]" by simp
  have 4: "example_row ''name'' ''a'' ''7'' \<in> set missing_page_table"
    by (simp add: missing_page_table_def)
  have 5: "row_selected labels_only literal_engine (example_row ''name'' ''a'' ''7'')"
    by (simp add: row_selected_def criteria_preds_def labels_only_def example_row_def
        strip_text_def)
  have 6: "\<not> page_loads example_self example_cv ''a.pdf'' (page_id (example_row ''name'' ''a'' ''7''))"
    by (simp add: page_loads_def page_path_def preload_filename_def path_join_def
        example_self_def example_cv_def example_row_def)
  from missing_page_is_fatal [OF 1 2 3 4 5 6] 1 2 3 4 5 6 show ?thesis by blast
qed









text \<open>
  Claim C9. After the loop over the documents the image cache holds the pages of the last
  document only, so the bundles are those of the last document, while the text recorded
  for a page identifier joins the texts of the filtered rows of all the documents.
\<close>

theorem only_last_document_is_bundled:
  assumes "get_entities self crit re cv (ds @ [d]) = Inr bundles" "has_labelling_model self"
  shows "\<exists>st. process_docs self crit re cv initial_locals (ds @ [d]) = Inr st
      \<and> keys (redacted_images_per_page st) = loaded_files self cv (fst d) (snd d)
      \<and> list_all2 (\<lambda>b k. page_index_of k (img_extension self) = Inr (pageIndex b)) bundles
           (loaded_files self cv (fst d) (snd d))
      \<and> (\<forall>p. redacted_text_per_page st p =
            (let ts = map text_col (filter (\<lambda>r. page_id r = p)
                                      (all_filtered crit re cv 0 (ds @ [d])))
             in if ts = [] then None else Some (join '' | '' ts)))"
proof -
  from get_entities_Inr [OF assms] obtain st where
    st: "process_docs self crit re cv initial_locals (ds @ [d]) = Inr st"
    and bs: "build_bundles self cv (redacted_text_per_page st) (redacted_images_per_page st) = Inr bundles"
    by blast
  have k: "keys (redacted_images_per_page st) = loaded_files self cv (fst d) (snd d)"
    using process_docs_initial(1) [OF st] by (simp add: final_cache_keys_def)
  have b: "list_all2 (\<lambda>b k. page_index_of k (img_extension self) = Inr (pageIndex b)) bundles
           (loaded_files self cv (fst d) (snd d))"
    using bundles_keys [OF bs] k by simp
  have t: "\<forall>p. redacted_text_per_page st p =
            (let ts = map text_col (filter (\<lambda>r. page_id r = p)
                                      (all_filtered crit re cv 0 (ds @ [d])))
             in if ts = [] then None else Some (join '' | '' ts))"
    using process_docs_initial(2) [OF st] by (simp add: foldl_text_step_None Let_def)
  from st k b t show ?thesis by blast
qed

text \<open>
  Claim C9 at two documents: the bundles are those of the second document, and the text of
  its page 0 starts with the text redacted on page 0 of the first.
\<close>

theorem only_last_document_is_bundled_witness:
  "get_entities example_self labels_only literal_engine example_cv
     ([(''b.pdf'', other_table)] @ [(''a.pdf'', example_table)])
     = Inr [\<lparr>pageIndex = ''0'', redactedData = ''x | a 1'', image = ''/res/a.pdf+0.png#''\<rparr>,
            \<lparr>pageIndex = ''1'', redactedData = ''ab'', image = ''/res/a.pdf+1.png#''\<rparr>]
   \<and> has_labelling_model example_self
   \<and> (\<exists>st. process_docs example_self labels_only literal_engine example_cv initial_locals
              ([(''b.pdf'', other_table)] @ [(''a.pdf'', example_table)]) = Inr st
         \<and> keys (redacted_images_per_page st)
             = loaded_files example_self example_cv ''a.pdf'' example_table
         \<and> redacted_text_per_page st ''0'' =
             (let ts = map text_col (filter (\<lambda>r. page_id r = ''0'')
                         (all_filtered labels_only literal_engine example_cv 0
                            ([(''b.pdf'', other_table)] @ [(''a.pdf'', example_table)])))
              in if ts = [] then None else Some (join '' | '' ts)))"
proof -
  have 1: "get_entities example_self labels_only literal_engine example_cv
     ([(''b.pdf'', other_table)] @ [(''a.pdf'', example_table)])
     = Inr [\<lparr>pageIndex = ''0'', redactedData = ''x | a 1'', image = ''/res/a.pdf+0.png#''\<rparr>,
            \<lparr>pageIndex = ''1'', redactedData = ''ab'', image = ''/res/a.pdf+1.png#''\<rparr>]"
    using two_documents_bundles by simp
  have 2: "has_labelling_model example_self" by (simp add: example_self_def)
  from only_last_document_is_bundled [OF 1 2] obtain st where
    "process_docs example_self labels_only literal_engine example_cv initial_locals
              ([(''b.pdf'', other_table)] @ [(''a.pdf'', example_table)]) = Inr st"
    "keys (redacted_images_per_page st)
       = loaded_files example_self example_cv (fst (''a.pdf'', example_table)) (snd (''a.pdf'', example_table))"
    "\<forall>p. redacted_text_per_page st p =
            (let ts = map text_col (filter (\<lambda>r. page_id r = p)
                         (all_filtered labels_only literal_engine example_cv 0
                            ([(''b.pdf'', other_table)] @ [(''a.pdf'', example_table)])))
             in if ts = [] then None else Some (join '' | '' ts))"
    by blast
  then have "process_docs example_self labels_only literal_engine example_cv initial_locals
              ([(''b.pdf'', other_table)] @ [(''a.pdf'', example_table)]) = Inr st
         \<and> keys (redacted_images_per_page st)
             = loaded_files example_self example_cv ''a.pdf'' example_table
         \<and> redacted_text_per_page st ''0'' =
             (let ts = map text_col (filter (\<lambda>r. page_id r = ''0'')
                         (all_filtered labels_only literal_engine example_cv 0
                            ([(''b.pdf'', other_table)] @ [(''a.pdf'', example_table)])))
              in if ts = [] then None else Some (join '' | '' ts))"
    by (simp only: fst_conv snd_conv)
  with 1 2 show ?thesis by blast
qed

text \<open>
  Claim C7, as amended. The claim says that the file of every page is read at most once.
  The source marks a page as processed only when \<open>cv2.imread\<close> returned an image: in the
  pre-loading of one document, the file of a page that loads is read once, however many
  rows reference the page, and the file of a page that does not load is read once for
  every row that references the page.
\<close>

theorem loaded_page_read_once:
  assumes "processed_page_ids st = {}"
  shows "count_list (imread_calls (preload self cv doc st rows)) (page_path self doc p) =
     count_list (imread_calls st) (page_path self doc p)
       + (if page_loads self cv doc p then min 1 (count_list (map page_id rows) p)
          else count_list (map page_id rows) p)"
  using preload_reads [of self cv doc st rows p] assms by simp

text \<open>The amended claim C7 at page 0 of the example document, which two rows reference.\<close>

theorem loaded_page_read_once_witness:
  "processed_page_ids (initial_locals :: string locals) = {}
   \<and> count_list (imread_calls (preload example_self example_cv ''a.pdf'' initial_locals example_table))
        (page_path example_self ''a.pdf'' ''0'')
      = count_list (imread_calls (initial_locals :: string locals)) (page_path example_self ''a.pdf'' ''0'')
        + (if page_loads example_self example_cv ''a.pdf'' ''0''
           then min 1 (count_list (map page_id example_table) ''0'')
           else count_list (map page_id example_table) ''0'')"
proof -
  have 1: "processed_page_ids (initial_locals :: string locals) = {}"
    by (simp add: initial_locals_def)
  from loaded_page_read_once [OF 1, of example_self example_cv "''a.pdf''" example_table "''0''"] 1
  show ?thesis by blast
qed

text \<open>
  Claim C7 as stated fails for a page whose file does not load: both rows of page 7 make
  the loop call \<open>cv2.imread\<close> on the same path.
\<close>

theorem unreadable_page_read_again_counterexample:
  "imread_calls (preload example_self example_cv ''a.pdf'' initial_locals missing_page_table)
     = [''/res/a.pdf+7.png'', ''/res/a.pdf+7.png'']
   \<and> map page_id missing_page_table = [''7'', ''7'']
   \<and> page_path example_self ''a.pdf'' ''7'' = ''/res/a.pdf+7.png''
   \<and> count_list (imread_calls
         (preload example_self example_cv ''a.pdf'' initial_locals missing_page_table))
        (page_path example_self ''a.pdf'' ''7'') = 2"
  by (simp add: preload_def preload_row_def preload_filename_def path_join_def Let_def
      page_path_def initial_locals_def missing_page_table_def
      example_self_def example_cv_def example_row_def)

text \<open>
  Claim C4, as amended. The claim says that a malformed pattern makes the run fail at setup
  time, before any document is processed. The source keeps the patterns as strings and
  compiles none of them before \<open>str.contains\<close> does: with a malformed pattern in the list,
  every call of \<open>get_filtered_predictions\<close> on a table raises \<open>re.error\<close> for the first
  such pattern, whatever the rows are (also for a table without rows, so the fault is not
  raised per row), and \<open>get_entities\<close> raises it while it processes the first document,
  when the labelling model is present. A run without documents, or without labelling
  model, returns the empty list.
\<close>

theorem malformed_pattern_fault:
  assumes "\<not> patterns_valid crit re"
  shows "\<exists>ps1 p ps2. text_patterns_to_redact crit = Some (ps1 @ p # ps2)
      \<and> list_all (re_valid re) ps1 \<and> \<not> re_valid re p
      \<and> (\<forall>rows. snd (get_filtered_predictions crit re (DataFrame rows)) = Inl (ReError p))
      \<and> (has_labelling_model self \<longrightarrow>
            get_entities self crit re cv (d # ds) = Inl (PyError (ReError p)))
      \<and> get_entities self crit re cv [] = Inr []
      \<and> (\<not> has_labelling_model self \<longrightarrow> get_entities self crit re cv docs = Inr [])"
proof -
  from first_malformed_pattern [OF assms] obtain ps1 p ps2 where
    ps: "text_patterns_to_redact crit = Some (ps1 @ p # ps2)"
    and v: "list_all (re_valid re) ps1" and p: "\<not> re_valid re p"
    by blast
  have a: "snd (get_filtered_predictions crit re (DataFrame rows)) = Inl (ReError p)" for rows
    using get_filtered_predictions_first_fault [OF ps v p] .
  have "process_doc self crit re cv initial_locals d = Inl (PyError (ReError p))"
    by (simp add: process_doc_def Let_def a)
  then have b: "has_labelling_model self \<longrightarrow>
      get_entities self crit re cv (d # ds) = Inl (PyError (ReError p))"
    by (simp add: get_entities_def)
  have c: "get_entities self crit re cv [] = Inr []"
    by (simp add: get_entities_def initial_locals_def)
  have d: "\<not> has_labelling_model self \<longrightarrow> get_entities self crit re cv docs = Inr []"
    by (simp add: get_entities_def)
  from ps v p a b c d show ?thesis by blast
qed

text \<open>
  The amended claim C4 with the patterns \<open>a\<close>, \<open>)\<close> and \<open>(\<close>, at the example document: the
  fault is the one of \<open>)\<close>, the first of the two malformed patterns.
\<close>

theorem malformed_pattern_fault_witness:
  "\<not> patterns_valid malformed_pattern literal_engine
   \<and> has_labelling_model example_self
   \<and> text_patterns_to_redact malformed_pattern = Some ([''a''] @ '')'' # [''(''])
   \<and> list_all (re_valid literal_engine) [''a'']
   \<and> \<not> re_valid literal_engine '')''
   \<and> \<not> re_valid literal_engine ''(''
   \<and> snd (get_filtered_predictions malformed_pattern literal_engine (DataFrame example_table))
       = Inl (ReError '')'')
   \<and> get_entities example_self malformed_pattern literal_engine example_cv
        ((''a.pdf'', example_table) # []) = Inl (PyError (ReError '')''))"
proof -
  have 1: "\<not> patterns_valid malformed_pattern literal_engine"
    by (simp add: patterns_valid_def malformed_pattern_def literal_engine_def)
  have 2: "has_labelling_model example_self" by (simp add: example_self_def)
  have 3: "text_patterns_to_redact malformed_pattern = Some ([''a''] @ '')'' # [''(''])"
    by (simp add: malformed_pattern_def)
  have 4: "list_all (re_valid literal_engine) [''a'']" "\<not> re_valid literal_engine '')''"
    "\<not> re_valid literal_engine ''(''"
    by (simp_all add: literal_engine_def)
  from malformed_pattern_fault [OF 1, of example_self example_cv "(''a.pdf'', example_table)" "[]" "[]"]
  obtain ps1 p ps2 where
    ps: "text_patterns_to_redact malformed_pattern = Some (ps1 @ p # ps2)"
    and v: "list_all (re_valid literal_engine) ps1" and p: "\<not> re_valid literal_engine p"
    and a: "\<forall>rows. snd (get_filtered_predictions malformed_pattern literal_engine (DataFrame rows))
          = Inl (ReError p)"
    and b: "has_labelling_model example_self \<longrightarrow>
       get_entities example_self malformed_pattern literal_engine example_cv
        ((''a.pdf'', example_table) # []) = Inl (PyError (ReError p))"
    by blast
  have "p = '')''"
  proof (cases ps1)
    case Nil
    with ps p show ?thesis by (auto simp: malformed_pattern_def literal_engine_def)
  next
    case (Cons q qs)
    note c1 = Cons
    show ?thesis
    proof (cases qs)
      case Nil
      with c1 ps show ?thesis by (simp add: malformed_pattern_def)
    next
      case (Cons q' qs')
      with c1 ps v show ?thesis
        by (auto simp: malformed_pattern_def literal_engine_def)
    qed
  qed
  with a b 1 2 3 4 show ?thesis by blast
qed

text \<open>
  Claim C4 as stated fails: with the malformed patterns \<open>)\<close> and \<open>(\<close> configured, a run
  without documents and a run without labelling model return normally.
\<close>

theorem no_setup_fault_counterexample:
  "\<not> patterns_valid malformed_pattern literal_engine
   \<and> get_entities example_self malformed_pattern literal_engine example_cv [] = Inr []
   \<and> get_entities (example_self\<lparr>has_labelling_model := False\<rparr>) malformed_pattern
        literal_engine example_cv [(''a.pdf'', example_table)] = Inr []"
  by (simp add: patterns_valid_def malformed_pattern_def literal_engine_def example_self_def
      get_entities_def initial_locals_def)

end
